theory Spec2Isabelle
  imports Complex_Main
begin

section \<open>Text primitives\<close>

text \<open>
  Python's \<^verbatim>\<open>str\<close> is modelled as \<^typ>\<open>string\<close>, a list of characters, where a
  character stands for a code point below 256. Python floats are modelled as exact
  reals.
\<close>

definition is_space :: "char \<Rightarrow> bool" where
  \<comment> \<open>\<^verbatim>\<open>str.isspace\<close>, which is also the class \<^verbatim>\<open>\s\<close> of \<^verbatim>\<open>re\<close> on \<^verbatim>\<open>str\<close> patterns:
      tab to carriage return, the separators 28 to 31, space, NEL and no-break space.\<close>
  "is_space c = (let n = (of_char c :: nat) in
     (9 \<le> n \<and> n \<le> 13) \<or> (28 \<le> n \<and> n \<le> 32) \<or> n = 133 \<or> n = 160)"

definition non_space :: "char \<Rightarrow> bool" where
  \<comment> \<open>the class \<^verbatim>\<open>\S\<close>\<close>
  "non_space c = (\<not> is_space c)"

definition is_alnum :: "char \<Rightarrow> bool" where
  \<comment> \<open>the class \<^verbatim>\<open>[a-zA-Z0-9]\<close>\<close>
  "is_alnum c = (let n = (of_char c :: nat) in
     (48 \<le> n \<and> n \<le> 57) \<or> (65 \<le> n \<and> n \<le> 90) \<or> (97 \<le> n \<and> n \<le> 122))"

definition lower_char :: "char \<Rightarrow> char" where
  \<comment> \<open>the upper-case letters below 256 are A to Z and 192 to 222 without the
      multiplication sign 215; each lies 32 below its lower-case letter\<close>
  "lower_char c = (let n = (of_char c :: nat) in
     if (65 \<le> n \<and> n \<le> 90) \<or> (192 \<le> n \<and> n \<le> 222 \<and> n \<noteq> 215)
     then char_of (n + 32) else c)"

definition py_lower :: "string \<Rightarrow> string" where
  \<comment> \<open>\<^verbatim>\<open>str.lower()\<close>\<close>
  "py_lower s = map lower_char s"

definition starts_with :: "string \<Rightarrow> string \<Rightarrow> bool" where
  \<comment> \<open>\<^verbatim>\<open>s.startswith(p)\<close>\<close>
  "starts_with s p = (take (length p) s = p)"

fun py_in :: "string \<Rightarrow> string \<Rightarrow> bool" where
  \<comment> \<open>\<^verbatim>\<open>k in s\<close> on strings: k is a contiguous part of s\<close>
  "py_in k [] = (k = [])"
| "py_in k (c # cs) = (starts_with (c # cs) k \<or> py_in k cs)"

definition py_strip :: "string \<Rightarrow> string" where
  \<comment> \<open>\<^verbatim>\<open>str.strip()\<close>\<close>
  "py_strip s = rev (dropWhile is_space (rev (dropWhile is_space s)))"

function py_split :: "string \<Rightarrow> string list" where
  \<comment> \<open>\<^verbatim>\<open>str.split()\<close> without argument: the maximal whitespace-free runs\<close>
  "py_split s =
     (case dropWhile is_space s of
        [] \<Rightarrow> []
      | c # cs \<Rightarrow> takeWhile non_space (c # cs) # py_split (dropWhile non_space cs))"
  by pat_completeness auto
termination
proof (relation "measure length")
  show "wf (measure length)" by simp
next
  fix s :: string and c cs
  assume a: "dropWhile is_space s = c # cs"
  have "length (dropWhile non_space cs) \<le> length cs"
    by (rule length_dropWhile_le)
  also have "length cs < length (dropWhile is_space s)"
    using a by simp
  also have "\<dots> \<le> length s"
    by (rule length_dropWhile_le)
  finally show "(dropWhile non_space cs, s) \<in> measure length"
    by simp
qed

declare py_split.simps [simp del]

section \<open>The job matcher (matcher.py)\<close>

subsection \<open>Text normalisation\<close>

function sub_runs :: "(string \<Rightarrow> bool) \<Rightarrow> string \<Rightarrow> string" where
  \<comment> \<open>\<^verbatim>\<open>re.sub(pattern, '', text)\<close> for a pattern that ends in \<^verbatim>\<open>\S+\<close>: scanning from
      the left, a match at the current position is deleted together with the rest of
      its whitespace-free run (the final \<^verbatim>\<open>\S+\<close> is greedy); otherwise the character
      is kept. The first argument decides whether the pattern matches at the start of
      the text.\<close>
  "sub_runs m [] = []"
| "sub_runs m (c # cs) =
     (if m (c # cs) then sub_runs m (dropWhile non_space cs) else c # sub_runs m cs)"
  by pat_completeness auto
termination
  by (relation "measure (\<lambda>(m, s). length s)")
     (auto simp: less_Suc_eq_le length_dropWhile_le)

definition url_at :: "string \<Rightarrow> bool" where
  \<comment> \<open>\<^verbatim>\<open>http\S+|www\S+\<close> matches at the start of the text: the whitespace-free run that
      starts there begins with \<^verbatim>\<open>http\<close> or \<^verbatim>\<open>www\<close> and goes on for at least one more
      character\<close>
  "url_at s =
     (let run = takeWhile non_space s
      in (starts_with run ''http'' \<and> 4 < length run) \<or>
         (starts_with run ''www'' \<and> 3 < length run))"

definition email_at :: "string \<Rightarrow> bool" where
  \<comment> \<open>\<^verbatim>\<open>\S+@\S+\<close> matches at the start of the text: the whitespace-free run that starts
      there has an at-sign with a character of the run before it and one after it\<close>
  "email_at s = (CHR ''@'' \<in> set (butlast (tl (takeWhile non_space s))))"

definition blank_special :: "string \<Rightarrow> string" where
  \<comment> \<open>\<^verbatim>\<open>re.sub(r'[^a-zA-Z0-9\s]', ' ', text)\<close>\<close>
  "blank_special s = map (\<lambda>c. if is_alnum c \<or> is_space c then c else CHR '' '') s"

function collapse_ws :: "string \<Rightarrow> string" where
  \<comment> \<open>\<^verbatim>\<open>re.sub(r'\s+', ' ', text)\<close>\<close>
  "collapse_ws [] = []"
| "collapse_ws (c # cs) =
     (if is_space c then CHR '' '' # collapse_ws (dropWhile is_space cs)
      else c # collapse_ws cs)"
  by pat_completeness auto
termination
  by (relation "measure length") (auto simp: less_Suc_eq_le length_dropWhile_le)

definition preprocess_text :: "string \<Rightarrow> string" where
  \<comment> \<open>\<^verbatim>\<open>JobMatcher._preprocess_text\<close>\<close>
  "preprocess_text text =
     (if text = [] then []
      else py_strip (collapse_ws (blank_special
             (sub_runs email_at (sub_runs url_at (py_lower text))))))"

definition scrub :: "string \<Rightarrow> string" where
  \<comment> \<open>the text after the first four steps of \<^verbatim>\<open>_preprocess_text\<close>, before the
      whitespace is collapsed and stripped\<close>
  "scrub s = blank_special (sub_runs email_at (sub_runs url_at (py_lower s)))"

subsection \<open>Rounding\<close>

definition round_half_even :: "real \<Rightarrow> int" where
  "round_half_even x =
     (let f = \<lfloor>x\<rfloor>; d = x - of_int f
      in if d < 1 / 2 then f else if 1 / 2 < d then f + 1
         else if even f then f else f + 1)"

definition py_round1 :: "real \<Rightarrow> real" where
  \<comment> \<open>\<^verbatim>\<open>round(x, 1)\<close>: to one decimal, ties to the even neighbour\<close>
  "py_round1 x = of_int (round_half_even (x * 10)) / 10"

subsection \<open>Scores\<close>

definition calculate_match_score ::
  "(string \<Rightarrow> string \<Rightarrow> real option) \<Rightarrow> string \<Rightarrow> string \<Rightarrow> real" where
  \<comment> \<open>\<^verbatim>\<open>JobMatcher.calculate_match_score\<close>. The first argument stands for scikit-learn:
      the cosine similarity of the TF-IDF vectors of the two cleaned texts, or
      \<^term>\<open>None\<close> when the library raises (the \<^verbatim>\<open>except\<close> branch).\<close>
  "calculate_match_score tfidf_cosine cv_text job_text =
     (let cv_clean = preprocess_text cv_text; job_clean = preprocess_text job_text
      in if cv_clean = [] \<or> job_clean = [] then 0
         else (case tfidf_cosine cv_clean job_clean of
                 None \<Rightarrow> 0
               | Some similarity \<Rightarrow>
                   (let score = py_round1 (similarity * 100)
                    in max 0 (min 100 score))))"

definition long_words :: "string \<Rightarrow> string set" where
  \<comment> \<open>\<^verbatim>\<open>{w for w in set(clean.split()) if len(w) > 2}\<close>\<close>
  "long_words clean = {w \<in> set (py_split clean). 2 < length w}"

definition calculate_keyword_overlap :: "string \<Rightarrow> string \<Rightarrow> real" where
  \<comment> \<open>\<^verbatim>\<open>JobMatcher.calculate_keyword_overlap\<close>\<close>
  "calculate_keyword_overlap cv_text job_text =
     (let cv_clean = preprocess_text cv_text; job_clean = preprocess_text job_text
      in if cv_clean = [] \<or> job_clean = [] then 0
         else (let cv_words = long_words cv_clean; job_words = long_words job_clean
               in if job_words = {} then 0
                  else (let overlap = card (cv_words \<inter> job_words);
                            score = (real overlap / real (card job_words)) * 100
                        in py_round1 (min 100 score))))"

definition get_combined_score ::
  "(string \<Rightarrow> string \<Rightarrow> real option) \<Rightarrow> string \<Rightarrow> string \<Rightarrow> real" where
  \<comment> \<open>\<^verbatim>\<open>JobMatcher.get_combined_score\<close>\<close>
  "get_combined_score tfidf_cosine cv_text job_text =
     (let tfidf_score = calculate_match_score tfidf_cosine cv_text job_text;
          keyword_score = calculate_keyword_overlap cv_text job_text;
          combined = (tfidf_score * 0.6) + (keyword_score * 0.4)
      in py_round1 combined)"

section \<open>Job records and the transport\<close>

record job =
  title :: string
  company :: string
  link :: string
  image_url :: "string option"
  description :: string

datatype search_error = InputError
  \<comment> \<open>the rejection of a malformed query that the specification describes; no path
      of the code raises it\<close>

datatype request =
    SearchPage string string nat  \<comment> \<open>role and location of the URL, page offset\<close>
  | DetailPage string             \<comment> \<open>the link of a job\<close>

datatype 'c response =
    TransportError                \<comment> \<open>the request raised\<close>
  | Response int "'c list list"
      \<comment> \<open>status code, and the elements each container selector finds in the body,
          in the order the selectors are tried\<close>

definition select_cards :: "'c list list \<Rightarrow> 'c list" where
  \<comment> \<open>\<^verbatim>\<open>job_cards = find_all(...)\<close>, then \<^verbatim>\<open>if not job_cards: job_cards = ...\<close> for each
      further selector: the first non-empty answer\<close>
  "select_cards css = (case filter (\<lambda>cs. cs \<noteq> []) css of [] \<Rightarrow> [] | cs # _ \<Rightarrow> cs)"

definition falsy :: "string option \<Rightarrow> bool" where
  \<comment> \<open>\<^verbatim>\<open>not title\<close> for a value that is \<^verbatim>\<open>None\<close> or a string\<close>
  "falsy t = (t = None \<or> t = Some [])"

definition resolve_link :: "string \<Rightarrow> string option \<Rightarrow> string" where
  \<comment> \<open>the link block of both \<^verbatim>\<open>_extract_job_data\<close> methods; the second argument is the
      \<^verbatim>\<open>href\<close> of the first anchor that has one\<close>
  "resolve_link origin link_elem =
     (case link_elem of
        None \<Rightarrow> ''#''
      | Some href \<Rightarrow>
          if starts_with href ''/'' then origin @ href
          else if starts_with href ''http'' then href
          else ''#'')"

definition is_duplicate :: "string \<Rightarrow> string \<Rightarrow> job list \<Rightarrow> bool" where
  \<comment> \<open>\<^verbatim>\<open>any(j['title'] == title and j['company'] == company for j in jobs)\<close>\<close>
  "is_duplicate t c jobs = (\<exists>j \<in> set jobs. title j = t \<and> company j = c)"

definition dedup_key :: "job \<Rightarrow> string \<times> string" where
  \<comment> \<open>the pair the duplicate check compares\<close>
  "dedup_key j = (title j, company j)"

definition sirket :: string where
  \<comment> \<open>the company sentinel of the source; its first letter, U+015E, is written as
      its two UTF-8 bytes\<close>
  "sirket = [CHR 0xC5, CHR 0x9E] @ ''irket''"

section \<open>The LinkedIn adapter (bot.py)\<close>

record li_card =
  li_class_text :: "string \<times> string \<Rightarrow> string option"
    \<comment> \<open>\<^verbatim>\<open>card.find(tag, class_=lambda x: x and class_name in str(x))\<close>: the stripped
        text of the element found, if any\<close>
  li_tag_text :: "string \<Rightarrow> string option"
    \<comment> \<open>\<^verbatim>\<open>card.find(tag)\<close>: the stripped text of the element found, if any\<close>
  li_a_href :: "string option"
    \<comment> \<open>\<^verbatim>\<open>card.find('a', href=True)\<close>: its \<^verbatim>\<open>href\<close>\<close>
  li_img :: "(string \<times> string option) option"
    \<comment> \<open>\<^verbatim>\<open>card.find('img', src=True)\<close>: its \<^verbatim>\<open>src\<close> and its \<^verbatim>\<open>data-delayed-url\<close>\<close>
  li_raises :: bool
    \<comment> \<open>a query on the card raises\<close>

definition li_title_selectors :: "(string \<times> string) list" where
  "li_title_selectors =
     [(''h3'', ''base-search-card__title''), (''h3'', ''job-card-list__title''),
      (''a'', ''base-card__full-link''), (''span'', ''sr-only'')]"

definition li_company_selectors :: "(string \<times> string) list" where
  "li_company_selectors =
     [(''h4'', ''base-search-card__subtitle''), (''a'', ''hidden-nested-link''),
      (''span'', ''job-card-container__company-name'')]"

fun li_title_loop :: "li_card \<Rightarrow> (string \<times> string) list \<Rightarrow> string option \<Rightarrow> string option" where
  "li_title_loop elem [] t = t"
| "li_title_loop elem (sel # sels) t =
     (case li_class_text elem sel of
        None \<Rightarrow> li_title_loop elem sels t
      | Some txt \<Rightarrow>
          if txt \<noteq> [] \<and> 5 < length txt then Some txt
          else li_title_loop elem sels (Some txt))"

fun li_company_loop :: "li_card \<Rightarrow> (string \<times> string) list \<Rightarrow> string \<Rightarrow> string" where
  "li_company_loop elem [] c = c"
| "li_company_loop elem (sel # sels) c =
     (case li_class_text elem sel of
        None \<Rightarrow> li_company_loop elem sels c
      | Some txt \<Rightarrow> if txt \<noteq> [] then txt else li_company_loop elem sels txt)"

definition li_raw_title :: "li_card \<Rightarrow> string option" where
  \<comment> \<open>the title after the selector loop and the \<^verbatim>\<open>h3\<close> fallback\<close>
  "li_raw_title elem =
     (let t = li_title_loop elem li_title_selectors None
      in if falsy t
         then (case li_tag_text elem ''h3'' of None \<Rightarrow> t | Some txt \<Rightarrow> Some txt)
         else t)"

definition li_extract_job_data :: "li_card \<Rightarrow> job option" where
  \<comment> \<open>\<^verbatim>\<open>LinkedInBot._extract_job_data\<close>\<close>
  "li_extract_job_data elem =
     (if li_raises elem then None
      else (case li_raw_title elem of
              None \<Rightarrow> None
            | Some t \<Rightarrow>
                if t = [] then None
                else
                  (let c = li_company_loop elem li_company_selectors ''Unknown'';
                       c = (if c = ''Unknown''
                            then (case li_tag_text elem ''h4'' of None \<Rightarrow> c | Some txt \<Rightarrow> txt)
                            else c);
                       l = resolve_link ''https://www.linkedin.com'' (li_a_href elem);
                       i = (case li_img elem of
                              None \<Rightarrow> None
                            | Some (src, delayed) \<Rightarrow> if src \<noteq> [] then Some src else delayed)
                   in Some \<lparr>title = t, company = c, link = l, image_url = i,
                            description = []\<rparr>)))"

definition li_card_step :: "string \<Rightarrow> job list \<Rightarrow> li_card \<Rightarrow> job list" where
  \<comment> \<open>the body of the loop over the cards of a page, after the budget test\<close>
  "li_card_step role jobs elem =
     (case li_extract_job_data elem of
        None \<Rightarrow> jobs
      | Some job_data \<Rightarrow>
          if title job_data = [] then jobs
          else
            (let masked_t = (CHR ''*'' \<in> set (title job_data));
                 job_data = (if masked_t then job_data\<lparr>title := role\<rparr> else job_data);
                 t = title job_data;
                 masked_c = (CHR ''*'' \<in> set (company job_data));
                 job_data = (if masked_c then job_data\<lparr>company := sirket\<rparr> else job_data);
                 c = company job_data
             in if length t < 3 \<or> 10 < count_list t (CHR '' '') then jobs
                else if is_duplicate t c jobs then jobs
                else jobs @ [job_data]))"

fun li_cards_loop :: "string \<Rightarrow> int \<Rightarrow> job list \<Rightarrow> li_card list \<Rightarrow> job list" where
  "li_cards_loop role max_jobs jobs [] = jobs"
| "li_cards_loop role max_jobs jobs (elem # elems) =
     (if max_jobs \<le> int (length jobs) then jobs
      else li_cards_loop role max_jobs (li_card_step role jobs elem) elems)"

definition li_page_starts :: "nat list" where
  \<comment> \<open>\<^verbatim>\<open>list(range(0, 200, 25))\<close>\<close>
  "li_page_starts = [0, 25, 50, 75, 100, 125, 150, 175]"

fun li_pages_loop ::
  "(nat \<Rightarrow> li_card response) \<Rightarrow> string \<Rightarrow> string \<Rightarrow> int \<Rightarrow> nat list \<Rightarrow>
   job list \<times> request list \<Rightarrow> job list \<times> request list" where
  "li_pages_loop fetch role location max_jobs [] (jobs, reqs) = (jobs, reqs)"
| "li_pages_loop fetch role location max_jobs (page_start # rest) (jobs, reqs) =
     (if max_jobs \<le> int (length jobs) then (jobs, reqs)
      else
        (let reqs = reqs @ [SearchPage role location page_start]
         in case fetch page_start of
              TransportError \<Rightarrow> li_pages_loop fetch role location max_jobs rest (jobs, reqs)
            | Response status css \<Rightarrow>
                if 400 \<le> status \<and> status < 600
                then li_pages_loop fetch role location max_jobs rest (jobs, reqs)
                else li_pages_loop fetch role location max_jobs rest
                       (li_cards_loop role max_jobs jobs (select_cards css), reqs)))"

record detail_soup =
  ds_class_text :: "string \<times> string \<Rightarrow> string option"
    \<comment> \<open>\<^verbatim>\<open>soup.find(tag, class_=lambda x: x and class_name in str(x))\<close>: its text\<close>
  ds_class_divs :: "(string \<times> string) list"
    \<comment> \<open>\<^verbatim>\<open>soup.find_all('div', class_=True)\<close>: text and \<^verbatim>\<open>str(div.get('class', []))\<close>
        of each\<close>

datatype detail_response = DetailError | DetailResponse int detail_soup

definition li_description_selectors :: "(string \<times> string) list" where
  "li_description_selectors =
     [(''div'', ''description__text''), (''div'', ''show-more-less-html__markup''),
      (''div'', ''job-description''), (''section'', ''description'')]"

fun li_description_loop :: "detail_soup \<Rightarrow> (string \<times> string) list \<Rightarrow> string option" where
  "li_description_loop soup [] = None"
| "li_description_loop soup (sel # sels) =
     (case ds_class_text soup sel of
        None \<Rightarrow> li_description_loop soup sels
      | Some txt \<Rightarrow>
          if 50 < length txt then Some (take 2000 txt)
          else li_description_loop soup sels)"

fun li_description_fallback :: "(string \<times> string) list \<Rightarrow> string option" where
  "li_description_fallback [] = None"
| "li_description_fallback ((txt, cls) # divs) =
     (if 100 < length txt \<and> length txt < 5000 \<and> py_in ''description'' (py_lower cls)
      then Some (take 2000 txt)
      else li_description_fallback divs)"

definition fetch_job_description :: "detail_response \<Rightarrow> string" where
  \<comment> \<open>\<^verbatim>\<open>LinkedInBot._fetch_job_description\<close>, on the answer to its request\<close>
  "fetch_job_description resp =
     (case resp of
        DetailError \<Rightarrow> []
      | DetailResponse status soup \<Rightarrow>
          if status \<noteq> 200 then []
          else (case li_description_loop soup li_description_selectors of
                  Some txt \<Rightarrow> txt
                | None \<Rightarrow>
                    (case li_description_fallback (ds_class_divs soup) of
                       Some txt \<Rightarrow> txt
                     | None \<Rightarrow> [])))"

fun li_backfill ::
  "(nat \<Rightarrow> string \<Rightarrow> detail_response) \<Rightarrow> nat \<Rightarrow> job list \<Rightarrow> job list \<times> request list" where
  \<comment> \<open>the loop over \<^verbatim>\<open>enumerate(jobs)\<close> that fetches the descriptions\<close>
  "li_backfill detail i [] = ([], [])"
| "li_backfill detail i (j # js) =
     (let (js', reqs) = li_backfill detail (Suc i) js
      in if link j \<noteq> [] \<and> link j \<noteq> ''#''
         then
           (let desc = fetch_job_description (detail i (link j))
            in ((if desc \<noteq> [] then j\<lparr>description := desc\<rparr> else j) # js',
                DetailPage (link j) # reqs))
         else (j # js', reqs))"

record li_world =
  li_search_page :: "nat \<Rightarrow> li_card response"
    \<comment> \<open>the answer to the search request with the given page offset\<close>
  li_detail_page :: "nat \<Rightarrow> string \<Rightarrow> detail_response"
    \<comment> \<open>the answer to the detail request for the job at the given index\<close>

definition li_search_jobs ::
  "li_world \<Rightarrow> string \<Rightarrow> string \<Rightarrow> int \<Rightarrow> search_error + job list \<times> request list" where
  \<comment> \<open>\<^verbatim>\<open>LinkedInBot.search_jobs\<close>: the jobs returned and the requests issued, in
      order\<close>
  "li_search_jobs w role location max_jobs =
     (let (jobs, reqs) =
            li_pages_loop (li_search_page w) role location max_jobs li_page_starts ([], []);
          (jobs, reqs') = li_backfill (li_detail_page w) 0 jobs
      in Inr (jobs, reqs @ reqs'))"

section \<open>The Kariyer.net adapter (kariyer_bot.py)\<close>

record kn_card =
  kn_title_elem :: "string option"
    \<comment> \<open>\<^verbatim>\<open>card.find(['h2', 'h3', 'a'], class_=lambda x: x and 'title' in str(x).lower())\<close>:
        its stripped text\<close>
  kn_a_tag :: "(string \<times> string) option"
    \<comment> \<open>\<^verbatim>\<open>card.find('a', href=True)\<close>: its stripped text and its \<^verbatim>\<open>href\<close>\<close>
  kn_company_elem :: "string option"
    \<comment> \<open>the element whose class contains \<^verbatim>\<open>company\<close>: its stripped text\<close>
  kn_loc_elem :: "string option"
    \<comment> \<open>the element whose class contains \<^verbatim>\<open>location\<close>: its stripped text\<close>
  kn_raises :: bool
    \<comment> \<open>a query on the card raises\<close>

definition kn_raw_title :: "kn_card \<Rightarrow> string option" where
  \<comment> \<open>the title after the two lookups, before the search role is substituted\<close>
  "kn_raw_title elem =
     (let t = kn_title_elem elem
      in if falsy t
         then (case kn_a_tag elem of None \<Rightarrow> t | Some (txt, href) \<Rightarrow> Some txt)
         else t)"

definition kn_extract_job_data :: "kn_card \<Rightarrow> string \<Rightarrow> job option" where
  \<comment> \<open>\<^verbatim>\<open>KariyerNetBot._extract_job_data\<close>\<close>
  "kn_extract_job_data elem search_role =
     (if kn_raises elem then None
      else
        (let t = (case kn_raw_title elem of
                    None \<Rightarrow> search_role
                  | Some txt \<Rightarrow>
                      if txt = [] \<or> length txt < 3 \<or> CHR ''*'' \<in> set txt then search_role
                      else txt);
             c = (case kn_company_elem elem of None \<Rightarrow> sirket | Some txt \<Rightarrow> txt);
             c = (if c = [] \<or> CHR ''*'' \<in> set c then sirket else c);
             l = resolve_link ''https://www.kariyer.net'' (map_option snd (kn_a_tag elem));
             location = (case kn_loc_elem elem of None \<Rightarrow> [] | Some txt \<Rightarrow> txt)
         in Some \<lparr>title = t, company = c, link = l, image_url = None,
                  description = location\<rparr>))"

definition kn_card_step :: "string \<Rightarrow> job list \<Rightarrow> kn_card \<Rightarrow> job list" where
  \<comment> \<open>the body of the loop over the cards of a page, after the budget test\<close>
  "kn_card_step role jobs elem =
     (case kn_extract_job_data elem role of
        None \<Rightarrow> jobs
      | Some job_data \<Rightarrow>
          if \<not> is_duplicate (title job_data) (company job_data) jobs
          then jobs @ [job_data]
          else jobs)"

fun kn_cards_loop :: "string \<Rightarrow> int \<Rightarrow> job list \<Rightarrow> kn_card list \<Rightarrow> job list" where
  "kn_cards_loop role max_jobs jobs [] = jobs"
| "kn_cards_loop role max_jobs jobs (elem # elems) =
     (if max_jobs \<le> int (length jobs) then jobs
      else kn_cards_loop role max_jobs (kn_card_step role jobs elem) elems)"

definition kn_pages :: "nat list" where
  \<comment> \<open>\<^verbatim>\<open>range(1, 9)\<close>\<close>
  "kn_pages = [1, 2, 3, 4, 5, 6, 7, 8]"

fun kn_pages_loop ::
  "(nat \<Rightarrow> kn_card response) \<Rightarrow> string \<Rightarrow> string \<Rightarrow> int \<Rightarrow> nat list \<Rightarrow>
   job list \<times> request list \<Rightarrow> job list \<times> request list" where
  "kn_pages_loop fetch role location max_jobs [] (jobs, reqs) = (jobs, reqs)"
| "kn_pages_loop fetch role location max_jobs (page # rest) (jobs, reqs) =
     (if max_jobs \<le> int (length jobs) then (jobs, reqs)
      else
        (let reqs = reqs @ [SearchPage (py_lower role) (py_lower location) page]
         in case fetch page of
              TransportError \<Rightarrow> kn_pages_loop fetch role location max_jobs rest (jobs, reqs)
            | Response status css \<Rightarrow>
                if status \<noteq> 200
                then kn_pages_loop fetch role location max_jobs rest (jobs, reqs)
                else kn_pages_loop fetch role location max_jobs rest
                       (kn_cards_loop role max_jobs jobs (select_cards css), reqs)))"

definition kn_search_jobs ::
  "(nat \<Rightarrow> kn_card response) \<Rightarrow> string \<Rightarrow> string \<Rightarrow> int \<Rightarrow>
   search_error + job list \<times> request list" where
  \<comment> \<open>\<^verbatim>\<open>KariyerNetBot.search_jobs\<close>: the jobs returned and the requests issued, in
      order\<close>
  "kn_search_jobs fetch role location max_jobs =
     Inr (kn_pages_loop fetch role location max_jobs kn_pages ([], []))"

section \<open>The candidates of a crawl\<close>

definition li_page_cards :: "li_card response \<Rightarrow> li_card list" where
  \<comment> \<open>the cards the LinkedIn page loop takes from the answer to a search request\<close>
  "li_page_cards r =
     (case r of
        TransportError \<Rightarrow> []
      | Response status css \<Rightarrow>
          if 400 \<le> status \<and> status < 600 then [] else select_cards css)"

definition li_candidates :: "li_world \<Rightarrow> li_card list" where
  \<comment> \<open>all cards of all result pages LinkedIn can serve to one crawl\<close>
  "li_candidates w = concat (map (\<lambda>p. li_page_cards (li_search_page w p)) li_page_starts)"

definition kn_page_cards :: "kn_card response \<Rightarrow> kn_card list" where
  \<comment> \<open>the cards the Kariyer.net page loop takes from the answer to a search request\<close>
  "kn_page_cards r =
     (case r of
        TransportError \<Rightarrow> []
      | Response status css \<Rightarrow> if status \<noteq> 200 then [] else select_cards css)"

definition kn_candidates :: "(nat \<Rightarrow> kn_card response) \<Rightarrow> kn_card list" where
  \<comment> \<open>all cards of all result pages Kariyer.net can serve to one crawl\<close>
  "kn_candidates fetch = concat (map (\<lambda>p. kn_page_cards (fetch p)) kn_pages)"

section \<open>The ranking score of the search route (main.py)\<close>

definition ranking_score :: "string list \<Rightarrow> string \<Rightarrow> job \<Rightarrow> real" where
  \<comment> \<open>the body of the loop over \<^verbatim>\<open>raw_jobs\<close> in \<^verbatim>\<open>search_jobs\<close>: the \<^verbatim>\<open>match_score\<close>
      of one job, from the keywords of the profile and the search title\<close>
  "ranking_score cv_keywords search_title j =
     (let cv_keywords_lower = map py_lower cv_keywords;
          job_title = py_lower (title j);
          job_company = py_lower (company j);
          job_desc = py_lower (description j);
          job_text = job_title @ '' '' @ job_company @ '' '' @ job_desc;
          keyword_matches = length (filter (\<lambda>kw. py_in kw job_text) cv_keywords_lower);
          keyword_score =
            (if cv_keywords \<noteq> []
             then (real keyword_matches / real (length cv_keywords)) * 100
             else 0);
          search_role = py_lower search_title;
          role_words = py_split search_role;
          role_match_bonus =
            sum_list (map (\<lambda>word. 15)
              (filter (\<lambda>word. py_in word job_title \<and> 3 < length word) role_words));
          desc_bonus = (if job_desc \<noteq> [] \<and> 0 < keyword_matches then 10 else 0);
          score = min 100 (keyword_score + role_match_bonus + desc_bonus)
      in py_round1 score)"

section \<open>The statements of the specification that the code is compared with\<close>

definition is_alpha :: "char \<Rightarrow> bool" where
  "is_alpha c = (let n = (of_char c :: nat) in
     (65 \<le> n \<and> n \<le> 90) \<or> (97 \<le> n \<and> n \<le> 122))"

definition spec_begins_with_scheme :: "string \<Rightarrow> bool" where
  \<comment> \<open>the text begins with a URI scheme: a letter, then letters, digits, plus, minus
      or dot, then a colon\<close>
  "spec_begins_with_scheme s =
     (case takeWhile (\<lambda>c. c \<noteq> CHR '':'') s of
        [] \<Rightarrow> False
      | a # r \<Rightarrow>
          is_alpha a \<and> list_all (\<lambda>c. is_alnum c \<or> c \<in> set ''+-.'') r \<and>
          length (a # r) < length s)"

definition spec_resolve_link :: "string \<Rightarrow> string \<Rightarrow> string" where
  \<comment> \<open>the link resolution rule in the words of the specification\<close>
  "spec_resolve_link origin href =
     (if starts_with href ''/'' then origin @ href
      else if spec_begins_with_scheme href then href
      else ''#'')"

definition spec_ranking_total :: "string list \<Rightarrow> string \<Rightarrow> job \<Rightarrow> real" where
  \<comment> \<open>the ranking-only score in the words of the specification: the share of the
      keywords found in title, company and description, scaled to 100, plus 15 for
      each word of the role longer than 3 characters found in the title, plus 10
      when there is a description and some keyword is found, clamped to 100\<close>
  "spec_ranking_total keywords role j =
     (let combined = title j @ '' '' @ company j @ '' '' @ description j;
          found = filter (\<lambda>k. py_in k combined) keywords;
          base = (if keywords = [] then 0
                  else 100 * real (length found) / real (length keywords));
          title_bonus =
            15 * real (length (filter (\<lambda>w. 3 < length w \<and> py_in w (title j)) (py_split role)));
          flat_bonus = (if description j \<noteq> [] \<and> found \<noteq> [] then 10 else 0)
      in min 100 (base + title_bonus + flat_bonus))"

section \<open>Example markup and transports\<close>

definition ex_li_card :: "string \<Rightarrow> string \<Rightarrow> string option \<Rightarrow> li_card" where
  \<comment> \<open>a LinkedIn card with the given title and company under the first selectors and
      the given \<^verbatim>\<open>href\<close>, without image\<close>
  "ex_li_card t c h =
     \<lparr>li_class_text = (\<lambda>sel. if sel = (''h3'', ''base-search-card__title'') then Some t
                              else if sel = (''h4'', ''base-search-card__subtitle'') then Some c
                              else None),
      li_tag_text = (\<lambda>tag. None), li_a_href = h, li_img = None, li_raises = False\<rparr>"

definition ex_li_world :: "li_card list \<Rightarrow> li_world" where
  \<comment> \<open>LinkedIn serves the given cards on its first page and fails on every other
      request\<close>
  "ex_li_world elems =
     \<lparr>li_search_page = (\<lambda>p. if p = 0 then Response 200 [elems] else TransportError),
      li_detail_page = (\<lambda>i l. DetailError)\<rparr>"

definition ex_kn_card :: "string option \<Rightarrow> string option \<Rightarrow> string option \<Rightarrow> kn_card" where
  \<comment> \<open>a Kariyer.net card with the given title element, anchor \<^verbatim>\<open>href\<close> (the anchor has
      no text) and location element, and without company element\<close>
  "ex_kn_card t h l =
     \<lparr>kn_title_elem = t, kn_a_tag = map_option (\<lambda>href. ([], href)) h,
      kn_company_elem = None, kn_loc_elem = l, kn_raises = False\<rparr>"

definition ex_kn_fetch :: "kn_card list \<Rightarrow> nat \<Rightarrow> kn_card response" where
  \<comment> \<open>Kariyer.net serves the given cards on its first page and answers 404 on every
      other page\<close>
  "ex_kn_fetch elems p = (if p = 1 then Response 200 [elems] else Response 404 [])"

section \<open>The crawl loops: budget and duplicates\<close>

lemma is_duplicate_key: "is_duplicate t c jobs \<longleftrightarrow> (t, c) \<in> set (map dedup_key jobs)"
  by (auto simp: is_duplicate_def dedup_key_def)

lemma li_card_step_length: "length (li_card_step role jobs c) \<le> Suc (length jobs)"
  by (simp add: li_card_step_def Let_def split: option.splits)

lemma li_card_step_distinct:
  "distinct (map dedup_key jobs) \<Longrightarrow> distinct (map dedup_key (li_card_step role jobs c))"
  by (auto simp: li_card_step_def Let_def is_duplicate_key dedup_key_def split: option.splits)

lemma li_cards_loop_budget:
  "int (length jobs) \<le> max_jobs \<Longrightarrow> int (length (li_cards_loop role max_jobs jobs cs)) \<le> max_jobs"
proof (induction cs arbitrary: jobs)
  case Nil
  then show ?case by simp
next
  case (Cons c cs)
  show ?case
  proof (cases "max_jobs \<le> int (length jobs)")
    case True
    with Cons.prems show ?thesis by simp
  next
    case False
    have "length (li_card_step role jobs c) \<le> Suc (length jobs)"
      by (rule li_card_step_length)
    with False have "int (length (li_card_step role jobs c)) \<le> max_jobs" by linarith
    from Cons.IH [OF this] False show ?thesis by simp
  qed
qed

lemma li_cards_loop_distinct:
  "distinct (map dedup_key jobs) \<Longrightarrow> distinct (map dedup_key (li_cards_loop role max_jobs jobs cs))"
  by (induction cs arbitrary: jobs) (auto simp: li_card_step_distinct)

lemma li_pages_loop_budget:
  "int (length jobs) \<le> max_jobs \<Longrightarrow>
   int (length (fst (li_pages_loop fetch role location max_jobs ps (jobs, reqs)))) \<le> max_jobs"
  by (induction ps arbitrary: jobs reqs)
     (auto simp: Let_def li_cards_loop_budget split: response.splits)

lemma li_pages_loop_distinct:
  "distinct (map dedup_key jobs) \<Longrightarrow>
   distinct (map dedup_key (fst (li_pages_loop fetch role location max_jobs ps (jobs, reqs))))"
  by (induction ps arbitrary: jobs reqs)
     (auto simp: Let_def li_cards_loop_distinct split: response.splits)

lemma li_backfill_keys:
  "map dedup_key (fst (li_backfill detail i js)) = map dedup_key js"
  by (induction js arbitrary: i) (simp_all add: Let_def dedup_key_def case_prod_beta)

lemma li_backfill_length: "length (fst (li_backfill detail i js)) = length js"
  using li_backfill_keys [of detail i js, THEN arg_cong, of length] by simp

lemma li_search_jobs_returns:
  "li_search_jobs w role location max_jobs =
     Inr (fst (li_backfill (li_detail_page w) 0
                 (fst (li_pages_loop (li_search_page w) role location max_jobs li_page_starts ([], [])))),
          snd (li_pages_loop (li_search_page w) role location max_jobs li_page_starts ([], [])) @
          snd (li_backfill (li_detail_page w) 0
                 (fst (li_pages_loop (li_search_page w) role location max_jobs li_page_starts ([], [])))))"
  by (simp add: li_search_jobs_def split: prod.splits)

lemma kn_card_step_length: "length (kn_card_step role jobs c) \<le> Suc (length jobs)"
  by (simp add: kn_card_step_def Let_def split: option.splits)

lemma kn_card_step_distinct:
  "distinct (map dedup_key jobs) \<Longrightarrow> distinct (map dedup_key (kn_card_step role jobs c))"
  by (auto simp: kn_card_step_def Let_def is_duplicate_key dedup_key_def split: option.splits)

lemma kn_cards_loop_budget:
  "int (length jobs) \<le> max_jobs \<Longrightarrow> int (length (kn_cards_loop role max_jobs jobs cs)) \<le> max_jobs"
proof (induction cs arbitrary: jobs)
  case Nil
  then show ?case by simp
next
  case (Cons c cs)
  show ?case
  proof (cases "max_jobs \<le> int (length jobs)")
    case True
    with Cons.prems show ?thesis by simp
  next
    case False
    have "length (kn_card_step role jobs c) \<le> Suc (length jobs)"
      by (rule kn_card_step_length)
    with False have "int (length (kn_card_step role jobs c)) \<le> max_jobs" by linarith
    from Cons.IH [OF this] False show ?thesis by simp
  qed
qed

lemma kn_cards_loop_distinct:
  "distinct (map dedup_key jobs) \<Longrightarrow> distinct (map dedup_key (kn_cards_loop role max_jobs jobs cs))"
  by (induction cs arbitrary: jobs) (auto simp: kn_card_step_distinct)

lemma kn_pages_loop_budget:
  "int (length jobs) \<le> max_jobs \<Longrightarrow>
   int (length (fst (kn_pages_loop fetch role location max_jobs ps (jobs, reqs)))) \<le> max_jobs"
  by (induction ps arbitrary: jobs reqs)
     (auto simp: Let_def kn_cards_loop_budget split: response.splits)

lemma kn_pages_loop_distinct:
  "distinct (map dedup_key jobs) \<Longrightarrow>
   distinct (map dedup_key (fst (kn_pages_loop fetch role location max_jobs ps (jobs, reqs))))"
  by (induction ps arbitrary: jobs reqs)
     (auto simp: Let_def kn_cards_loop_distinct split: response.splits)

lemma kn_search_jobs_returns:
  "\<exists>reqs. kn_search_jobs fetch role location max_jobs =
     Inr (fst (kn_pages_loop fetch role location max_jobs kn_pages ([], [])), reqs)"
  by (cases "kn_pages_loop fetch role location max_jobs kn_pages ([], [])")
     (simp add: kn_search_jobs_def)

section \<open>The crawl loops: where a returned record comes from\<close>

lemma li_card_step_origin:
  assumes "j \<in> set (li_card_step role jobs c)"
  shows "j \<in> set jobs \<or>
         (\<exists>raw. li_extract_job_data c = Some raw \<and>
                title j = (if CHR ''*'' \<in> set (title raw) then role else title raw))"
  using assms
  by (auto simp: li_card_step_def Let_def split: option.splits if_splits)

lemma li_cards_loop_origin:
  assumes step: "\<And>jobs c. j \<in> set (li_card_step role jobs c) \<Longrightarrow> j \<in> set jobs \<or> P c"
    and "j \<in> set (li_cards_loop role max_jobs jobs cs)"
  shows "j \<in> set jobs \<or> (\<exists>c \<in> set cs. P c)"
  using assms(2)
proof (induction cs arbitrary: jobs)
  case Nil
  then show ?case by simp
next
  case (Cons c cs)
  show ?case
  proof (cases "max_jobs \<le> int (length jobs)")
    case True
    with Cons.prems show ?thesis by simp
  next
    case False
    with Cons.prems have "j \<in> set (li_cards_loop role max_jobs (li_card_step role jobs c) cs)"
      by simp
    from Cons.IH [OF this] step [of jobs c]
    show ?thesis by auto
  qed
qed

lemma li_pages_loop_origin:
  assumes step: "\<And>jobs c. j \<in> set (li_card_step role jobs c) \<Longrightarrow> j \<in> set jobs \<or> P c"
    and "j \<in> set (fst (li_pages_loop fetch role location max_jobs ps (jobs, reqs)))"
  shows "j \<in> set jobs \<or> (\<exists>c \<in> set (concat (map (\<lambda>p. li_page_cards (fetch p)) ps)). P c)"
  using assms(2)
proof (induction ps arbitrary: jobs reqs)
  case Nil
  then show ?case by simp
next
  case (Cons p ps)
  let ?reqs = "reqs @ [SearchPage role location p]"
  show ?case
  proof (cases "max_jobs \<le> int (length jobs)")
    case True
    with Cons.prems show ?thesis by simp
  next
    case False
    show ?thesis
    proof (cases "li_page_cards (fetch p) = [] \<and>
        li_pages_loop fetch role location max_jobs (p # ps) (jobs, reqs) =
        li_pages_loop fetch role location max_jobs ps (jobs, ?reqs)")
      case True
      with Cons.prems
      have "j \<in> set (fst (li_pages_loop fetch role location max_jobs ps (jobs, ?reqs)))"
        by simp
      from Cons.IH [OF this] show ?thesis by auto
    next
      case other: False
      with False obtain status css where r: "fetch p = Response status css"
        and ok: "\<not> (400 \<le> status \<and> status < 600)"
        by (cases "fetch p") (auto simp: Let_def li_page_cards_def split: if_splits)
      with False Cons.prems
      have "j \<in> set (fst (li_pages_loop fetch role location max_jobs ps
                (li_cards_loop role max_jobs jobs (select_cards css), ?reqs)))"
        by (simp add: Let_def)
      from Cons.IH [OF this]
      have "j \<in> set (li_cards_loop role max_jobs jobs (select_cards css)) \<or>
            (\<exists>c \<in> set (concat (map (\<lambda>p. li_page_cards (fetch p)) ps)). P c)" .
      moreover have "li_page_cards (fetch p) = select_cards css"
        using r ok by (auto simp: li_page_cards_def)
      ultimately show ?thesis
        using li_cards_loop_origin [of j role P max_jobs jobs "select_cards css", OF step]
        by auto
    qed
  qed
qed

lemma li_backfill_titles:
  "map title (fst (li_backfill detail i js)) = map title js"
  by (induction js arbitrary: i) (simp_all add: Let_def case_prod_beta)

lemma kn_card_step_origin:
  assumes "j \<in> set (kn_card_step role jobs c)"
  shows "j \<in> set jobs \<or> kn_extract_job_data c role = Some j"
  using assms
  by (auto simp: kn_card_step_def split: option.splits if_splits)

lemma kn_cards_loop_origin:
  assumes "j \<in> set (kn_cards_loop role max_jobs jobs cs)"
  shows "j \<in> set jobs \<or> (\<exists>c \<in> set cs. kn_extract_job_data c role = Some j)"
  using assms
proof (induction cs arbitrary: jobs)
  case Nil
  then show ?case by simp
next
  case (Cons c cs)
  show ?case
  proof (cases "max_jobs \<le> int (length jobs)")
    case True
    with Cons.prems show ?thesis by simp
  next
    case False
    with Cons.prems have "j \<in> set (kn_cards_loop role max_jobs (kn_card_step role jobs c) cs)"
      by simp
    from Cons.IH [OF this] kn_card_step_origin [of j role jobs c]
    show ?thesis by auto
  qed
qed

lemma kn_pages_loop_origin:
  assumes "j \<in> set (fst (kn_pages_loop fetch role location max_jobs ps (jobs, reqs)))"
  shows "j \<in> set jobs \<or>
         (\<exists>c \<in> set (concat (map (\<lambda>p. kn_page_cards (fetch p)) ps)).
            kn_extract_job_data c role = Some j)"
  using assms
proof (induction ps arbitrary: jobs reqs)
  case Nil
  then show ?case by simp
next
  case (Cons p ps)
  let ?reqs = "reqs @ [SearchPage (py_lower role) (py_lower location) p]"
  show ?case
  proof (cases "max_jobs \<le> int (length jobs)")
    case True
    with Cons.prems show ?thesis by simp
  next
    case False
    show ?thesis
    proof (cases "kn_page_cards (fetch p) = [] \<and>
        kn_pages_loop fetch role location max_jobs (p # ps) (jobs, reqs) =
        kn_pages_loop fetch role location max_jobs ps (jobs, ?reqs)")
      case True
      with Cons.prems
      have "j \<in> set (fst (kn_pages_loop fetch role location max_jobs ps (jobs, ?reqs)))"
        by simp
      from Cons.IH [OF this] show ?thesis by auto
    next
      case other: False
      with False obtain css where r: "fetch p = Response 200 css"
        by (cases "fetch p") (auto simp: Let_def kn_page_cards_def split: if_splits)
      with False Cons.prems
      have "j \<in> set (fst (kn_pages_loop fetch role location max_jobs ps
                (kn_cards_loop role max_jobs jobs (select_cards css), ?reqs)))"
        by (simp add: Let_def)
      from Cons.IH [OF this]
      have "j \<in> set (kn_cards_loop role max_jobs jobs (select_cards css)) \<or>
            (\<exists>c \<in> set (concat (map (\<lambda>p. kn_page_cards (fetch p)) ps)).
               kn_extract_job_data c role = Some j)" .
      moreover have "kn_page_cards (fetch p) = select_cards css"
        using r by (simp add: kn_page_cards_def)
      ultimately show ?thesis
        using kn_cards_loop_origin [of j role max_jobs jobs "select_cards css"]
        by auto
    qed
  qed
qed

lemma kn_pages_loop_requests:
  "\<exists>n. snd (kn_pages_loop fetch role location max_jobs ps (jobs, reqs)) =
         reqs @ map (SearchPage (py_lower role) (py_lower location)) (take n ps)"
proof (induction ps arbitrary: jobs reqs)
  case Nil
  then show ?case by simp
next
  case (Cons p ps)
  let ?sp = "SearchPage (py_lower role) (py_lower location)"
  show ?case
  proof (cases "max_jobs \<le> int (length jobs)")
    case True
    then have "snd (kn_pages_loop fetch role location max_jobs (p # ps) (jobs, reqs)) =
               reqs @ map ?sp (take 0 (p # ps))"
      by simp
    then show ?thesis by blast
  next
    case False
    then have "\<exists>jobs'. kn_pages_loop fetch role location max_jobs (p # ps) (jobs, reqs) =
       kn_pages_loop fetch role location max_jobs ps (jobs', reqs @ [?sp p])"
      by (cases "fetch p") (auto simp: Let_def)
    then obtain jobs' where
      "kn_pages_loop fetch role location max_jobs (p # ps) (jobs, reqs) =
       kn_pages_loop fetch role location max_jobs ps (jobs', reqs @ [?sp p])"
      by blast
    moreover from Cons.IH [of jobs' "reqs @ [?sp p]"] obtain n where
      "snd (kn_pages_loop fetch role location max_jobs ps (jobs', reqs @ [?sp p])) =
       (reqs @ [?sp p]) @ map ?sp (take n ps)"
      by blast
    ultimately have "snd (kn_pages_loop fetch role location max_jobs (p # ps) (jobs, reqs)) =
               reqs @ map ?sp (take (Suc n) (p # ps))"
      by simp
    then show ?thesis by blast
  qed
qed

lemma kn_extract_fields:
  assumes "kn_extract_job_data c role = Some j"
  shows "image_url j = None"
    and "description j = (case kn_loc_elem c of None \<Rightarrow> [] | Some txt \<Rightarrow> txt)"
    and "kn_raw_title c = Some raw \<Longrightarrow> CHR ''*'' \<in> set raw \<Longrightarrow> title j = role"
    and "CHR ''*'' \<notin> set role \<Longrightarrow> CHR ''*'' \<notin> set (title j)"
  using assms
  by (auto simp: kn_extract_job_data_def Let_def split: if_splits option.splits)

section \<open>Words of a normalised text\<close>

lemma is_space_blank [simp]: "is_space (CHR '' '')"
  by (simp add: is_space_def)

lemma takeWhile_stop: "\<not> P y \<Longrightarrow> takeWhile P (xs @ y # ys) = takeWhile P xs"
  by (induction xs) auto

lemma dropWhile_stop: "\<not> P y \<Longrightarrow> dropWhile P (xs @ y # ys) = dropWhile P xs @ y # ys"
  by (induction xs) auto

lemma sub_runs_append:
  assumes local: "\<And>s. m s = m (takeWhile non_space s)"
    and empty: "\<not> m []"
    and sp: "is_space c"
  shows "sub_runs m (a @ c # b) = sub_runs m a @ c # sub_runs m b"
proof (induction a rule: length_induct)
  case (1 a)
  show ?case
  proof (cases a)
    case Nil
    have "m (c # b) = m (takeWhile non_space (c # b))" by (rule local)
    with sp empty Nil show ?thesis by (simp add: non_space_def)
  next
    case (Cons x xs)
    have "m ((x # xs) @ c # b) = m (takeWhile non_space ((x # xs) @ c # b))" by (rule local)
    also have "\<dots> = m (takeWhile non_space (x # xs))"
      using sp by (simp only: takeWhile_stop non_space_def not_not)
    also have "\<dots> = m (x # xs)" by (rule local [symmetric])
    finally have eq: "m ((x # xs) @ c # b) = m (x # xs)" .
    have dr: "dropWhile non_space (xs @ c # b) = dropWhile non_space xs @ c # b"
      using sp by (simp add: dropWhile_stop non_space_def)
    show ?thesis
    proof (cases "m (x # xs)")
      case True
      have "length (dropWhile non_space xs) < length a"
        using Cons length_dropWhile_le [of non_space xs] by simp
      with 1 have "sub_runs m (dropWhile non_space xs @ c # b) =
                   sub_runs m (dropWhile non_space xs) @ c # sub_runs m b"
        by blast
      with True eq dr Cons show ?thesis by simp
    next
      case False
      have "length xs < length a" using Cons by simp
      with 1 have "sub_runs m (xs @ c # b) = sub_runs m xs @ c # sub_runs m b" by blast
      with False eq Cons show ?thesis by simp
    qed
  qed
qed

lemma url_at_local: "url_at s = url_at (takeWhile non_space s)"
  by (simp add: url_at_def)

lemma email_at_local: "email_at s = email_at (takeWhile non_space s)"
  by (simp add: email_at_def)

lemma url_at_Nil: "\<not> url_at []"
  by (simp add: url_at_def starts_with_def)

lemma email_at_Nil: "\<not> email_at []"
  by (simp add: email_at_def)

lemma scrub_append: "scrub (a @ CHR '' '' # b) = scrub a @ CHR '' '' # scrub b"
proof -
  have l: "py_lower (a @ CHR '' '' # b) = py_lower a @ CHR '' '' # py_lower b"
    by (simp add: py_lower_def lower_char_def)
  have u: "sub_runs url_at (py_lower a @ CHR '' '' # py_lower b) =
           sub_runs url_at (py_lower a) @ CHR '' '' # sub_runs url_at (py_lower b)"
    by (rule sub_runs_append [OF url_at_local url_at_Nil is_space_blank])
  have e: "sub_runs email_at (sub_runs url_at (py_lower a) @ CHR '' '' # sub_runs url_at (py_lower b)) =
           sub_runs email_at (sub_runs url_at (py_lower a)) @ CHR '' '' #
           sub_runs email_at (sub_runs url_at (py_lower b))"
    by (rule sub_runs_append [OF email_at_local email_at_Nil is_space_blank])
  show ?thesis
    by (simp add: scrub_def l u e blank_special_def)
qed

lemma py_split_dropWhile: "py_split (dropWhile is_space s) = py_split s"
  by (simp add: py_split.simps [of s] py_split.simps [of "dropWhile is_space s"])

lemma py_split_Nil [simp]: "py_split [] = []"
  by (simp add: py_split.simps [of "[]"])

lemma py_split_space: "is_space c \<Longrightarrow> py_split (c # s) = py_split s"
  using py_split_dropWhile [of "c # s"] py_split_dropWhile [of s] by simp

lemma py_split_all_space: "\<forall>c \<in> set s. is_space c \<Longrightarrow> py_split s = []"
  by (induction s) (simp_all add: py_split_space)

lemma py_split_eq_Nil: "py_split s = [] \<longleftrightarrow> (\<forall>c \<in> set s. is_space c)"
proof
  assume "py_split s = []"
  then have "dropWhile is_space s = []"
    by (simp add: py_split.simps [of s] split: list.splits)
  then show "\<forall>c \<in> set s. is_space c" by (simp add: dropWhile_eq_Nil_conv)
qed (rule py_split_all_space)

lemma py_split_word:
  assumes "w \<noteq> []" and "\<forall>x \<in> set w. non_space x" and "r = [] \<or> is_space (hd r)"
  shows "py_split (w @ r) = w # py_split r"
proof -
  from assms(1) obtain d ds where w: "w = d # ds" by (cases w) auto
  with assms(2) have d: "\<not> is_space d" and ds: "\<forall>x \<in> set ds. non_space x"
    by (auto simp: non_space_def)
  have dw: "dropWhile is_space (w @ r) = d # (ds @ r)" using w d by simp
  have tk: "takeWhile non_space (d # (ds @ r)) = d # ds"
    using assms(3) ds d by (cases r) (auto simp: non_space_def)
  have dr: "dropWhile non_space (ds @ r) = r"
    using assms(3) ds by (cases r) (auto simp: non_space_def)
  have "py_split (w @ r) =
        (case dropWhile is_space (w @ r) of
           [] \<Rightarrow> []
         | c # cs \<Rightarrow> takeWhile non_space (c # cs) # py_split (dropWhile non_space cs))"
    by (rule py_split.simps)
  also have "\<dots> = (d # ds) # py_split r"
    by (simp only: dw list.case tk dr)
  finally show ?thesis by (simp only: w)
qed

lemma run_split:
  "takeWhile non_space s @ dropWhile non_space s = s \<and>
   (\<forall>x \<in> set (takeWhile non_space s). non_space x) \<and>
   (dropWhile non_space s = [] \<or> is_space (hd (dropWhile non_space s)))"
  using hd_dropWhile [of non_space s]
  by (auto simp: non_space_def dest: set_takeWhileD)

lemma py_split_append:
  assumes sp: "is_space c"
  shows "py_split (u @ c # v) = py_split u @ py_split v"
proof (induction u rule: length_induct)
  case (1 u)
  show ?case
  proof (cases u)
    case Nil
    with sp show ?thesis by (simp add: py_split_space)
  next
    case (Cons x xs)
    show ?thesis
    proof (cases "is_space x")
      case True
      with Cons 1 show ?thesis by (simp add: py_split_space)
    next
      case False
      let ?w = "takeWhile non_space u" and ?r = "dropWhile non_space u"
      from False Cons have wne: "?w \<noteq> []" by (simp add: non_space_def)
      have wr: "?w @ ?r = u" by simp
      have wall: "\<forall>x \<in> set ?w. non_space x" using run_split [of u] by blast
      have rhd: "?r = [] \<or> is_space (hd ?r)" using run_split [of u] by blast
      have len: "length ?r < length u"
        using wne wr by (metis length_append length_greater_0_conv less_add_same_cancel2)
      have a: "py_split u = ?w # py_split ?r"
        using py_split_word [OF wne wall rhd] by simp
      have "\<And>r. r = [] \<or> is_space (hd r) \<Longrightarrow> r @ c # v = [] \<or> is_space (hd (r @ c # v))"
        using sp by (case_tac r) auto
      from this [OF rhd] have rhd': "?r @ c # v = [] \<or> is_space (hd (?r @ c # v))" .
      have "u @ c # v = ?w @ (?r @ c # v)"
        by (simp only: append_assoc [symmetric] takeWhile_dropWhile_id)
      then have "py_split (u @ c # v) = py_split (?w @ (?r @ c # v))"
        by (rule arg_cong)
      also have "\<dots> = ?w # py_split (?r @ c # v)"
        by (rule py_split_word [OF wne wall rhd'])
      also have "\<dots> = ?w # (py_split ?r @ py_split v)"
        using 1 len by simp
      finally show ?thesis using a by simp
    qed
  qed
qed

lemma collapse_ws_word:
  "\<forall>x \<in> set w. non_space x \<Longrightarrow> collapse_ws (w @ r) = w @ collapse_ws r"
  by (induction w) (auto simp: non_space_def)

lemma collapse_ws_hd:
  "r = [] \<or> is_space (hd r) \<Longrightarrow> collapse_ws r = [] \<or> is_space (hd (collapse_ws r))"
  by (cases r) auto

lemma py_split_collapse_ws: "py_split (collapse_ws s) = py_split s"
proof (induction s rule: length_induct)
  case (1 s)
  show ?case
  proof (cases s)
    case Nil
    then show ?thesis by simp
  next
    case (Cons x xs)
    show ?thesis
    proof (cases "is_space x")
      case True
      have "length (dropWhile is_space xs) < length s"
        using Cons length_dropWhile_le [of is_space xs] by simp
      with 1 have "py_split (collapse_ws (dropWhile is_space xs)) = py_split (dropWhile is_space xs)"
        by blast
      with True Cons show ?thesis
        by (simp add: py_split_space py_split_dropWhile)
    next
      case False
      let ?w = "takeWhile non_space s" and ?r = "dropWhile non_space s"
      from False Cons have wne: "?w \<noteq> []" by (simp add: non_space_def)
      have wr: "?w @ ?r = s" by simp
      have wall: "\<forall>x \<in> set ?w. non_space x" using run_split [of s] by blast
      have rhd: "?r = [] \<or> is_space (hd ?r)" using run_split [of s] by blast
      have len: "length ?r < length s"
        using wne wr by (metis length_append length_greater_0_conv less_add_same_cancel2)
      have "collapse_ws s = collapse_ws (?w @ ?r)" by (simp del: takeWhile.simps dropWhile.simps)
      also have "\<dots> = ?w @ collapse_ws ?r" by (rule collapse_ws_word [OF wall])
      finally have c: "collapse_ws s = ?w @ collapse_ws ?r" .
      have "py_split (?w @ collapse_ws ?r) = ?w # py_split (collapse_ws ?r)"
        by (rule py_split_word [OF wne wall collapse_ws_hd [OF rhd]])
      also have "\<dots> = ?w # py_split ?r" using 1 len by simp
      also have "\<dots> = py_split (?w @ ?r)"
        by (rule py_split_word [OF wne wall rhd, symmetric])
      finally show ?thesis using c by (simp del: takeWhile.simps dropWhile.simps)
    qed
  qed
qed

lemma py_split_trailing: "\<forall>c \<in> set z. is_space c \<Longrightarrow> py_split (u @ z) = py_split u"
  by (cases z) (simp_all add: py_split_append py_split_all_space)

lemma py_split_strip: "py_split (py_strip s) = py_split s"
proof -
  let ?t = "dropWhile is_space s"
  let ?z = "rev (takeWhile is_space (rev ?t))"
  have "rev ?t = takeWhile is_space (rev ?t) @ dropWhile is_space (rev ?t)"
    by (simp only: takeWhile_dropWhile_id)
  then have "rev (rev ?t) = rev (takeWhile is_space (rev ?t) @ dropWhile is_space (rev ?t))"
    by (rule arg_cong)
  then have t: "?t = py_strip s @ ?z"
    by (simp only: rev_rev_ident rev_append py_strip_def)
  have z: "\<forall>c \<in> set ?z. is_space c"
    by (auto dest: set_takeWhileD)
  have "py_split ?t = py_split (py_strip s @ ?z)"
    using t by (rule arg_cong)
  also have "\<dots> = py_split (py_strip s)"
    by (rule py_split_trailing [OF z])
  finally show ?thesis by (simp only: py_split_dropWhile)
qed

lemma all_space_dropWhile: "(\<forall>c \<in> set s. is_space c) \<longleftrightarrow> dropWhile is_space s = []"
  by (rule dropWhile_eq_Nil_conv [symmetric])

lemma dropWhile_keeps_non_space:
  "\<forall>c \<in> set (dropWhile is_space s). is_space c \<Longrightarrow> dropWhile is_space s = []"
  using hd_dropWhile [of is_space s] hd_in_set [of "dropWhile is_space s"] by blast

lemma py_strip_eq_Nil: "py_strip s = [] \<longleftrightarrow> (\<forall>c \<in> set s. is_space c)"
proof
  assume "py_strip s = []"
  then have "dropWhile is_space (rev (dropWhile is_space s)) = []"
    by (simp only: py_strip_def rev_is_Nil_conv)
  then have "\<forall>c \<in> set (rev (dropWhile is_space s)). is_space c"
    by (rule all_space_dropWhile [THEN iffD2])
  then have "\<forall>c \<in> set (dropWhile is_space s). is_space c"
    by (simp only: set_rev)
  then have "dropWhile is_space s = []"
    by (rule dropWhile_keeps_non_space)
  then show "\<forall>c \<in> set s. is_space c"
    by (rule all_space_dropWhile [THEN iffD2])
next
  assume "\<forall>c \<in> set s. is_space c"
  then have e: "dropWhile is_space s = []"
    by (rule all_space_dropWhile [THEN iffD1])
  show "py_strip s = []"
    by (simp only: py_strip_def e rev.simps dropWhile.simps)
qed

lemma scrub_Nil: "scrub [] = []"
  by (simp add: scrub_def py_lower_def blank_special_def)

lemma preprocess_scrub:
  "preprocess_text s = (if s = [] then [] else py_strip (collapse_ws (scrub s)))"
  by (simp only: preprocess_text_def scrub_def)

lemma py_split_preprocess: "py_split (preprocess_text s) = py_split (scrub s)"
proof (cases "s = []")
  case True
  then show ?thesis by (simp add: preprocess_scrub scrub_Nil)
next
  case False
  then show ?thesis
    by (simp only: preprocess_scrub if_False py_split_strip py_split_collapse_ws)
qed

lemma preprocess_eq_Nil: "preprocess_text s = [] \<longleftrightarrow> py_split (scrub s) = []"
proof -
  have a: "py_strip y = [] \<longleftrightarrow> py_split (py_strip y) = []" for y
    by (simp only: py_split_strip py_strip_eq_Nil py_split_eq_Nil)
  have "preprocess_text s = [] \<longleftrightarrow> py_split (preprocess_text s) = []"
  proof (cases "s = []")
    case True
    then show ?thesis by (simp add: preprocess_scrub)
  next
    case False
    then show ?thesis by (simp only: preprocess_scrub if_False a)
  qed
  then show ?thesis by (simp only: py_split_preprocess)
qed

lemma words_append:
  "py_split (preprocess_text (p @ CHR '' '' # x)) =
   py_split (preprocess_text p) @ py_split (preprocess_text x)"
  by (simp only: py_split_preprocess scrub_append py_split_append [OF is_space_blank])

section \<open>Rounding and the bounds of the scores\<close>

lemma round_half_even_lower: "\<lfloor>x\<rfloor> \<le> round_half_even x"
  by (simp add: round_half_even_def Let_def)

lemma round_half_even_upper: "round_half_even x \<le> \<lfloor>x\<rfloor> + 1"
  by (simp add: round_half_even_def Let_def)

lemma round_half_even_of_int: "round_half_even (of_int n) = n"
  by (simp add: round_half_even_def Let_def)

lemma round_half_even_mono:
  assumes "x \<le> y"
  shows "round_half_even x \<le> round_half_even y"
proof (cases "\<lfloor>x\<rfloor> < \<lfloor>y\<rfloor>")
  case True
  have "round_half_even x \<le> \<lfloor>x\<rfloor> + 1" by (rule round_half_even_upper)
  also have "\<dots> \<le> \<lfloor>y\<rfloor>" using True by simp
  also have "\<dots> \<le> round_half_even y" by (rule round_half_even_lower)
  finally show ?thesis .
next
  case False
  moreover have "\<lfloor>x\<rfloor> \<le> \<lfloor>y\<rfloor>" using assms by (rule floor_mono)
  ultimately have eq: "\<lfloor>x\<rfloor> = \<lfloor>y\<rfloor>" by simp
  with assms have "x - of_int \<lfloor>x\<rfloor> \<le> y - of_int \<lfloor>y\<rfloor>" by simp
  with eq show ?thesis
    by (auto simp: round_half_even_def Let_def)
qed

lemma py_round1_mono: "x \<le> y \<Longrightarrow> py_round1 x \<le> py_round1 y"
  using round_half_even_mono [of "x * 10" "y * 10"]
  by (simp add: py_round1_def divide_right_mono)

lemma py_round1_0: "py_round1 0 = 0"
  by (simp add: py_round1_def round_half_even_def)

lemma py_round1_100: "py_round1 100 = 100"
  using round_half_even_of_int [of 1000] by (simp add: py_round1_def)

lemma py_round1_bounds:
  assumes "0 \<le> x" and "x \<le> 100"
  shows "0 \<le> py_round1 x \<and> py_round1 x \<le> 100"
  using py_round1_mono [OF assms(1)] py_round1_mono [OF assms(2)]
  by (simp add: py_round1_0 py_round1_100)

lemma finite_long_words: "finite (long_words s)"
  by (simp add: long_words_def)

lemma overlap_ratio_bounds:
  "0 \<le> real (card (long_words a \<inter> long_words b)) / real (card (long_words b)) * 100 \<and>
   real (card (long_words a \<inter> long_words b)) / real (card (long_words b)) * 100 \<le> 100"
proof -
  define x where "x = real (card (long_words a \<inter> long_words b)) / real (card (long_words b))"
  have "card (long_words a \<inter> long_words b) \<le> card (long_words b)"
    by (rule card_mono [OF finite_long_words]) simp
  then have "x \<le> 1"
    unfolding x_def by (auto simp: divide_le_eq_1)
  moreover have "0 \<le> x"
    unfolding x_def by simp
  ultimately have "0 \<le> x * 100 \<and> x * 100 \<le> 100" by simp
  then show ?thesis unfolding x_def .
qed

lemma match_score_bounds:
  "0 \<le> calculate_match_score sim a b \<and> calculate_match_score sim a b \<le> 100"
  by (simp add: calculate_match_score_def Let_def split: option.splits)

lemma keyword_overlap_bounds:
  "0 \<le> calculate_keyword_overlap a b \<and> calculate_keyword_overlap a b \<le> 100"
proof -
  let ?r = "real (card (long_words (preprocess_text a) \<inter> long_words (preprocess_text b))) /
            real (card (long_words (preprocess_text b))) * 100"
  have r: "0 \<le> ?r \<and> ?r \<le> 100" by (rule overlap_ratio_bounds)
  then have "0 \<le> min 100 ?r \<and> min 100 ?r \<le> 100" by simp
  then have "0 \<le> py_round1 (min 100 ?r) \<and> py_round1 (min 100 ?r) \<le> 100"
    using py_round1_bounds by blast
  then show ?thesis
    by (simp add: calculate_keyword_overlap_def Let_def)
qed

lemma combined_score_bounds:
  "0 \<le> get_combined_score sim a b \<and> get_combined_score sim a b \<le> 100"
proof -
  let ?t = "calculate_match_score sim a b" and ?k = "calculate_keyword_overlap a b"
  have "0 \<le> ?t \<and> ?t \<le> 100" by (rule match_score_bounds)
  moreover have "0 \<le> ?k \<and> ?k \<le> 100" by (rule keyword_overlap_bounds)
  ultimately have "0 \<le> ?t * 0.6 + ?k * 0.4 \<and> ?t * 0.6 + ?k * 0.4 \<le> 100" by simp
  then have "0 \<le> py_round1 (?t * 0.6 + ?k * 0.4) \<and> py_round1 (?t * 0.6 + ?k * 0.4) \<le> 100"
    using py_round1_bounds by blast
  then show ?thesis by (simp add: get_combined_score_def Let_def)
qed

lemma preprocess_text_Nil: "preprocess_text [] = []"
  by (simp add: preprocess_text_def)

lemma long_words_append:
  "long_words (preprocess_text p) \<subseteq> long_words (preprocess_text (p @ CHR '' '' # x))"
  by (auto simp: long_words_def words_append)

lemma preprocess_append_nonempty:
  "preprocess_text p \<noteq> [] \<Longrightarrow> preprocess_text (p @ CHR '' '' # x) \<noteq> []"
proof -
  assume "preprocess_text p \<noteq> []"
  then have "py_split (scrub p) \<noteq> []" by (simp add: preprocess_eq_Nil)
  then have "py_split (scrub p) @ py_split (scrub x) \<noteq> []" by blast
  then have "py_split (scrub (p @ CHR '' '' # x)) \<noteq> []"
    by (simp add: scrub_append py_split_append [OF is_space_blank])
  then show ?thesis by (simp add: preprocess_eq_Nil)
qed

lemma keyword_overlap_append:
  "calculate_keyword_overlap p j \<le> calculate_keyword_overlap (p @ CHR '' '' # x) j"
proof (cases "preprocess_text p = [] \<or> preprocess_text j = [] \<or>
              long_words (preprocess_text j) = {}")
  case True
  then have "calculate_keyword_overlap p j = 0"
    by (auto simp: calculate_keyword_overlap_def Let_def)
  then show ?thesis using keyword_overlap_bounds [of "p @ CHR '' '' # x" j] by simp
next
  case False
  let ?J = "long_words (preprocess_text j)"
  let ?A = "long_words (preprocess_text p)"
  let ?B = "long_words (preprocess_text (p @ CHR '' '' # x))"
  from False have ne: "preprocess_text (p @ CHR '' '' # x) \<noteq> []"
    using preprocess_append_nonempty by blast
  have "?A \<inter> ?J \<subseteq> ?B \<inter> ?J" using long_words_append [of p x] by blast
  then have "card (?A \<inter> ?J) \<le> card (?B \<inter> ?J)"
    by (rule card_mono [rotated]) (simp add: finite_long_words)
  then have "real (card (?A \<inter> ?J)) / real (card ?J) * 100 \<le>
             real (card (?B \<inter> ?J)) / real (card ?J) * 100"
    by (simp add: divide_right_mono)
  then have "min 100 (real (card (?A \<inter> ?J)) / real (card ?J) * 100) \<le>
             min 100 (real (card (?B \<inter> ?J)) / real (card ?J) * 100)"
    by simp
  then have "py_round1 (min 100 (real (card (?A \<inter> ?J)) / real (card ?J) * 100)) \<le>
             py_round1 (min 100 (real (card (?B \<inter> ?J)) / real (card ?J) * 100))"
    by (rule py_round1_mono)
  with False ne show ?thesis
    by (simp add: calculate_keyword_overlap_def Let_def)
qed

section \<open>Evaluation of the examples\<close>

lemmas ex_eval =
  li_search_jobs_def ex_li_world_def ex_li_card_def li_page_starts_def Let_def
  select_cards_def li_card_step_def li_extract_job_data_def li_raw_title_def li_title_selectors_def
  li_company_selectors_def falsy_def resolve_link_def starts_with_def is_duplicate_def
  fetch_job_description_def
  kn_search_jobs_def ex_kn_fetch_def ex_kn_card_def kn_pages_def
  kn_card_step_def kn_extract_job_data_def kn_raw_title_def py_lower_def lower_char_def sirket_def

section \<open>The scores of the matcher\<close>

text \<open>
  C1. For every pair of texts, and whatever similarity the TF-IDF library computes or
  whether it raises, \<^verbatim>\<open>calculate_match_score\<close>, \<^verbatim>\<open>calculate_keyword_overlap\<close> and
  \<^verbatim>\<open>get_combined_score\<close> return a score between 0 and 100; when either text is empty
  after preprocessing, all three return 0; and the empty text stays empty under
  preprocessing.
\<close>

theorem scores_bounded:
  "0 \<le> calculate_match_score sim a b \<and> calculate_match_score sim a b \<le> 100 \<and>
   0 \<le> calculate_keyword_overlap a b \<and> calculate_keyword_overlap a b \<le> 100 \<and>
   0 \<le> get_combined_score sim a b \<and> get_combined_score sim a b \<le> 100 \<and>
   (preprocess_text a = [] \<or> preprocess_text b = [] \<longrightarrow>
      calculate_match_score sim a b = 0 \<and> calculate_keyword_overlap a b = 0 \<and>
      get_combined_score sim a b = 0) \<and>
   preprocess_text [] = []"
proof -
  have z: "calculate_match_score sim a b = 0 \<and> calculate_keyword_overlap a b = 0 \<and>
      get_combined_score sim a b = 0"
    if "preprocess_text a = [] \<or> preprocess_text b = []"
    using that
    by (auto simp: calculate_match_score_def calculate_keyword_overlap_def
        get_combined_score_def py_round1_0)
  show ?thesis
    using match_score_bounds [of sim a b] keyword_overlap_bounds [of a b]
      combined_score_bounds [of sim a b] z preprocess_text_Nil
    by blast
qed

theorem scores_bounded_witness:
  "preprocess_text ''?!'' = [] \<and>
   calculate_match_score (\<lambda>cv job. Some 1) ''?!'' ''python docker'' = 0 \<and>
   calculate_keyword_overlap ''?!'' ''python docker'' = 0 \<and>
   get_combined_score (\<lambda>cv job. Some 1) ''?!'' ''python docker'' = 0 \<and>
   get_combined_score (\<lambda>cv job. Some 1) ''python developer'' ''python docker'' = 80"
proof -
  have e: "preprocess_text ''?!'' = []"
    by code_simp
  have c: "get_combined_score (\<lambda>cv job. Some 1) ''python developer'' ''python docker'' = 80"
    by code_simp
  from scores_bounded [of "\<lambda>cv job. Some 1" "''?!''" "''python docker''"] e c
  show ?thesis by simp
qed

text \<open>
  C8. When a token of the job's filtered token set, longer than two characters, is
  appended to the profile text after a blank, \<^verbatim>\<open>calculate_keyword_overlap\<close> does not
  decrease.
\<close>

theorem keyword_overlap_monotone:
  assumes "t \<in> long_words (preprocess_text j)" and "2 < length t"
  shows "calculate_keyword_overlap p j \<le> calculate_keyword_overlap (p @ '' '' @ t) j"
  using keyword_overlap_append [of p j t] by simp

theorem keyword_overlap_monotone_witness:
  "''docker'' \<in> long_words (preprocess_text ''python docker'') \<and>
   2 < length ''docker'' \<and>
   calculate_keyword_overlap ''python developer'' ''python docker'' = 50 \<and>
   calculate_keyword_overlap (''python developer'' @ '' '' @ ''docker'') ''python docker'' = 100"
proof -
  have m: "''docker'' \<in> long_words (preprocess_text ''python docker'')"
    by code_simp
  have l: "2 < length ''docker''"
    by simp
  have a: "calculate_keyword_overlap ''python developer'' ''python docker'' = 50"
    by code_simp
  have b: "calculate_keyword_overlap (''python developer'' @ '' '' @ ''docker'') ''python docker'' = 100"
    by code_simp
  from keyword_overlap_monotone [OF m l, of "''python developer''"] m l a b
  show ?thesis by simp
qed

section \<open>Properties of the crawl\<close>

text \<open>
  C2. For a positive \<^verbatim>\<open>max_jobs\<close>, both \<^verbatim>\<open>search_jobs\<close> methods return, and the list
  they return has at most \<^verbatim>\<open>max_jobs\<close> records.
\<close>

theorem search_budget:
  assumes "0 < max_jobs"
  shows "(\<exists>jobs reqs. li_search_jobs w role location max_jobs = Inr (jobs, reqs) \<and>
                      int (length jobs) \<le> max_jobs) \<and>
         (\<exists>jobs reqs. kn_search_jobs fetch role location max_jobs = Inr (jobs, reqs) \<and>
                      int (length jobs) \<le> max_jobs)"
proof -
  have start: "int (length ([] :: job list)) \<le> max_jobs"
    using assms by simp
  have "int (length (fst (li_pages_loop (li_search_page w) role location max_jobs
                li_page_starts ([], [])))) \<le> max_jobs"
    by (rule li_pages_loop_budget [OF start])
  then have li: "\<exists>jobs reqs. li_search_jobs w role location max_jobs = Inr (jobs, reqs) \<and>
                      int (length jobs) \<le> max_jobs"
    by (simp add: li_search_jobs_returns li_backfill_length)
  have "int (length (fst (kn_pages_loop fetch role location max_jobs kn_pages ([], [])))) \<le> max_jobs"
    by (rule kn_pages_loop_budget [OF start])
  then have kn: "\<exists>jobs reqs. kn_search_jobs fetch role location max_jobs = Inr (jobs, reqs) \<and>
                      int (length jobs) \<le> max_jobs"
    using kn_search_jobs_returns [of fetch role location max_jobs] by blast
  from li kn show ?thesis by blast
qed

theorem search_budget_witness:
  "(0::int) < 1 \<and>
   (\<exists>jobs reqs.
      li_search_jobs
        (ex_li_world [ex_li_card ''Backend Developer'' ''Acme'' None,
                      ex_li_card ''Data Engineer'' ''Initech'' None])
        ''developer'' ''Istanbul'' 1 = Inr (jobs, reqs) \<and>
      int (length jobs) \<le> 1) \<and>
   (\<exists>jobs reqs.
      kn_search_jobs
        (ex_kn_fetch [ex_kn_card (Some ''Backend Developer'') None None,
                      ex_kn_card (Some ''Data Engineer'') None None])
        ''developer'' ''istanbul'' 1 = Inr (jobs, reqs) \<and>
      int (length jobs) \<le> 1)"
  using search_budget [of 1] by simp

text \<open>
  C3. Both \<^verbatim>\<open>search_jobs\<close> methods return, and no two records of the list they return
  have the same title and the same company.
\<close>

theorem search_dedup:
  "(\<exists>jobs reqs. li_search_jobs w role location max_jobs = Inr (jobs, reqs) \<and>
                 distinct (map dedup_key jobs)) \<and>
   (\<exists>jobs reqs. kn_search_jobs fetch role location max_jobs = Inr (jobs, reqs) \<and>
                 distinct (map dedup_key jobs))"
proof -
  have start: "distinct (map dedup_key ([] :: job list))" by simp
  have "distinct (map dedup_key (fst (li_pages_loop (li_search_page w) role location max_jobs
                li_page_starts ([], []))))"
    by (rule li_pages_loop_distinct [OF start])
  then have li: "\<exists>jobs reqs. li_search_jobs w role location max_jobs = Inr (jobs, reqs) \<and>
                 distinct (map dedup_key jobs)"
    by (simp add: li_search_jobs_returns li_backfill_keys)
  have "distinct (map dedup_key (fst (kn_pages_loop fetch role location max_jobs kn_pages ([], []))))"
    by (rule kn_pages_loop_distinct [OF start])
  then have kn: "\<exists>jobs reqs. kn_search_jobs fetch role location max_jobs = Inr (jobs, reqs) \<and>
                 distinct (map dedup_key jobs)"
    using kn_search_jobs_returns [of fetch role location max_jobs] by blast
  from li kn show ?thesis by blast
qed

text \<open>
  C4, as the code has it. With \<^verbatim>\<open>max_jobs = 0\<close> both \<^verbatim>\<open>search_jobs\<close> methods return the
  empty list and issue no request; neither raises.
\<close>

theorem zero_budget_empty_without_request:
  "li_search_jobs w role location 0 = Inr ([], []) \<and>
   kn_search_jobs fetch role location 0 = Inr ([], [])"
  by (simp add: li_search_jobs_def li_page_starts_def kn_search_jobs_def kn_pages_def)

text \<open>
  C4, as the specification states it, fails: a query with \<^verbatim>\<open>max_jobs = 0\<close> is not
  rejected with an input error; it is answered.
\<close>

theorem zero_budget_not_rejected:
  "li_search_jobs (ex_li_world [ex_li_card ''Backend Developer'' ''Acme'' None])
     ''developer'' ''Istanbul'' 0 \<noteq> Inl InputError \<and>
   kn_search_jobs (ex_kn_fetch [ex_kn_card (Some ''Backend Developer'') None None])
     ''developer'' ''istanbul'' 0 \<noteq> Inl InputError"
  by (simp add: li_search_jobs_def li_page_starts_def kn_search_jobs_def kn_pages_def)

text \<open>
  C6, as the code has it. Every record a search returns comes from a candidate of the
  crawl; when the raw title of that candidate contains an asterisk, the title of the
  record is the search role, otherwise (for LinkedIn) it is the raw title. When the
  search role contains no asterisk, no returned title contains one.
\<close>

theorem masked_titles_replaced:
  "(\<forall>jobs c raw.
      li_extract_job_data c = Some raw \<and> CHR ''*'' \<in> set (title raw) \<longrightarrow>
      li_card_step role jobs c = jobs \<or>
      (\<exists>j. li_card_step role jobs c = jobs @ [j] \<and> title j = role)) \<and>
   (\<exists>jobs reqs. li_search_jobs w role location max_jobs = Inr (jobs, reqs) \<and>
      (\<forall>j \<in> set jobs. \<exists>c \<in> set (li_candidates w). \<exists>raw.
          li_extract_job_data c = Some raw \<and>
          title j = (if CHR ''*'' \<in> set (title raw) then role else title raw)) \<and>
      (CHR ''*'' \<notin> set role \<longrightarrow> (\<forall>j \<in> set jobs. CHR ''*'' \<notin> set (title j)))) \<and>
   (\<exists>jobs reqs. kn_search_jobs fetch role location max_jobs = Inr (jobs, reqs) \<and>
      (\<forall>j \<in> set jobs. \<exists>c \<in> set (kn_candidates fetch).
          kn_extract_job_data c role = Some j \<and>
          (\<forall>raw. kn_raw_title c = Some raw \<and> CHR ''*'' \<in> set raw \<longrightarrow> title j = role)) \<and>
      (CHR ''*'' \<notin> set role \<longrightarrow> (\<forall>j \<in> set jobs. CHR ''*'' \<notin> set (title j))))"
proof (intro conjI)
  show "\<forall>jobs c raw.
      li_extract_job_data c = Some raw \<and> CHR ''*'' \<in> set (title raw) \<longrightarrow>
      li_card_step role jobs c = jobs \<or>
      (\<exists>j. li_card_step role jobs c = jobs @ [j] \<and> title j = role)"
    by (auto simp: li_card_step_def Let_def)
next
  let ?p = "li_pages_loop (li_search_page w) role location max_jobs li_page_starts ([], [])"
  let ?b = "li_backfill (li_detail_page w) 0 (fst ?p)"
  have origin: "\<exists>c \<in> set (li_candidates w). \<exists>raw.
          li_extract_job_data c = Some raw \<and>
          title j = (if CHR ''*'' \<in> set (title raw) then role else title raw)"
    if "j \<in> set (fst ?b)" for j
  proof -
    from that have "title j \<in> set (map title (fst ?b))" by simp
    then have "title j \<in> set (map title (fst ?p))" by (simp only: li_backfill_titles)
    then obtain j0 where j0: "j0 \<in> set (fst ?p)" and t: "title j0 = title j" by auto
    have "j0 \<in> set [] \<or> (\<exists>c \<in> set (concat (map (\<lambda>p. li_page_cards (li_search_page w p)) li_page_starts)).
            \<exists>raw. li_extract_job_data c = Some raw \<and>
              title j0 = (if CHR ''*'' \<in> set (title raw) then role else title raw))"
      by (rule li_pages_loop_origin [OF _ j0]) (rule li_card_step_origin)
    with t show ?thesis by (simp add: li_candidates_def)
  qed
  have "li_search_jobs w role location max_jobs = Inr (fst ?b, snd ?p @ snd ?b)"
    by (simp add: li_search_jobs_def case_prod_beta)
  moreover have "CHR ''*'' \<notin> set role \<longrightarrow> (\<forall>j \<in> set (fst ?b). CHR ''*'' \<notin> set (title j))"
    using origin by (metis (full_types))
  ultimately show "\<exists>jobs reqs. li_search_jobs w role location max_jobs = Inr (jobs, reqs) \<and>
      (\<forall>j \<in> set jobs. \<exists>c \<in> set (li_candidates w). \<exists>raw.
          li_extract_job_data c = Some raw \<and>
          title j = (if CHR ''*'' \<in> set (title raw) then role else title raw)) \<and>
      (CHR ''*'' \<notin> set role \<longrightarrow> (\<forall>j \<in> set jobs. CHR ''*'' \<notin> set (title j)))"
    using origin by blast
next
  let ?r = "kn_pages_loop fetch role location max_jobs kn_pages ([], [])"
  have origin: "\<exists>c \<in> set (kn_candidates fetch). kn_extract_job_data c role = Some j"
    if "j \<in> set (fst ?r)" for j
    using kn_pages_loop_origin [OF that] by (simp add: kn_candidates_def)
  have a: "\<forall>j \<in> set (fst ?r). \<exists>c \<in> set (kn_candidates fetch).
          kn_extract_job_data c role = Some j \<and>
          (\<forall>raw. kn_raw_title c = Some raw \<and> CHR ''*'' \<in> set raw \<longrightarrow> title j = role)"
    using origin kn_extract_fields(3) by blast
  have b: "CHR ''*'' \<notin> set role \<longrightarrow> (\<forall>j \<in> set (fst ?r). CHR ''*'' \<notin> set (title j))"
    using origin kn_extract_fields(4) by blast
  have "kn_search_jobs fetch role location max_jobs = Inr (fst ?r, snd ?r)"
    by (simp add: kn_search_jobs_def)
  with a b show "\<exists>jobs reqs. kn_search_jobs fetch role location max_jobs = Inr (jobs, reqs) \<and>
      (\<forall>j \<in> set jobs. \<exists>c \<in> set (kn_candidates fetch).
          kn_extract_job_data c role = Some j \<and>
          (\<forall>raw. kn_raw_title c = Some raw \<and> CHR ''*'' \<in> set raw \<longrightarrow> title j = role)) \<and>
      (CHR ''*'' \<notin> set role \<longrightarrow> (\<forall>j \<in> set jobs. CHR ''*'' \<notin> set (title j)))"
    by blast
qed

theorem masked_titles_replaced_witness:
  "CHR ''*'' \<notin> set ''developer'' \<and>
   li_search_jobs (ex_li_world [ex_li_card ''Senior ***'' ''Acme'' None])
       ''developer'' ''Istanbul'' 5 =
     Inr ([\<lparr>title = ''developer'', company = ''Acme'', link = ''#'', image_url = None,
            description = []\<rparr>],
          map (SearchPage ''developer'' ''Istanbul'') li_page_starts) \<and>
   kn_search_jobs (ex_kn_fetch [ex_kn_card (Some ''Senior ***'') None None])
       ''developer'' ''istanbul'' 5 =
     Inr ([\<lparr>title = ''developer'', company = sirket, link = ''#'', image_url = None,
            description = []\<rparr>],
          map (SearchPage ''developer'' ''istanbul'') kn_pages)"
  using masked_titles_replaced [where role = "''developer''" and max_jobs = 5
      and w = "ex_li_world [ex_li_card ''Senior ***'' ''Acme'' None]"
      and fetch = "ex_kn_fetch [ex_kn_card (Some ''Senior ***'') None None]"]
  by (simp add: ex_eval)

text \<open>
  C6, as the specification states it, fails: when the search role itself contains an
  asterisk, the record that replaces a masked title carries the asterisk of the role.
\<close>

theorem masked_role_stays_masked:
  "CHR ''*'' \<in> set ''*nix admin'' \<and>
   li_search_jobs (ex_li_world [ex_li_card ''Senior ***'' ''Acme'' None])
       ''*nix admin'' ''Istanbul'' 5 =
     Inr ([\<lparr>title = ''*nix admin'', company = ''Acme'', link = ''#'', image_url = None,
            description = []\<rparr>],
          map (SearchPage ''*nix admin'' ''Istanbul'') li_page_starts) \<and>
   kn_search_jobs (ex_kn_fetch [ex_kn_card (Some ''Senior ***'') None None])
       ''*nix admin'' ''istanbul'' 5 =
     Inr ([\<lparr>title = ''*nix admin'', company = sirket, link = ''#'', image_url = None,
            description = []\<rparr>],
          map (SearchPage ''*nix admin'' ''istanbul'') kn_pages)"
  by (simp add: ex_eval)

text \<open>
  C10. \<^verbatim>\<open>KariyerNetBot.search_jobs\<close> returns, the requests it issues are search pages
  only (a prefix of its eight pages, no detail page), and every record it returns has
  no image and carries as description the location text of a card of the crawl, empty
  when that card has no location element.
\<close>

theorem kariyer_no_backfill:
  "\<exists>jobs n. kn_search_jobs fetch role location max_jobs =
       Inr (jobs, map (SearchPage (py_lower role) (py_lower location)) (take n kn_pages)) \<and>
     (\<forall>j \<in> set jobs. image_url j = None \<and>
        (\<exists>c \<in> set (kn_candidates fetch).
           kn_extract_job_data c role = Some j \<and>
           description j = (case kn_loc_elem c of None \<Rightarrow> [] | Some txt \<Rightarrow> txt)))"
proof -
  let ?r = "kn_pages_loop fetch role location max_jobs kn_pages ([], [])"
  obtain n where n: "snd ?r = map (SearchPage (py_lower role) (py_lower location)) (take n kn_pages)"
    using kn_pages_loop_requests [of fetch role location max_jobs kn_pages "[]" "[]"] by auto
  have "\<forall>j \<in> set (fst ?r). image_url j = None \<and>
        (\<exists>c \<in> set (kn_candidates fetch).
           kn_extract_job_data c role = Some j \<and>
           description j = (case kn_loc_elem c of None \<Rightarrow> [] | Some txt \<Rightarrow> txt))"
  proof
    fix j
    assume "j \<in> set (fst ?r)"
    from kn_pages_loop_origin [OF this]
    obtain c where c: "c \<in> set (kn_candidates fetch)" and e: "kn_extract_job_data c role = Some j"
      by (auto simp: kn_candidates_def)
    from kn_extract_fields(1,2) [OF e] c e
    show "image_url j = None \<and>
        (\<exists>c \<in> set (kn_candidates fetch).
           kn_extract_job_data c role = Some j \<and>
           description j = (case kn_loc_elem c of None \<Rightarrow> [] | Some txt \<Rightarrow> txt))"
      by blast
  qed
  moreover have "kn_search_jobs fetch role location max_jobs = Inr (fst ?r, snd ?r)"
    by (simp add: kn_search_jobs_def)
  ultimately show ?thesis
    using n by metis
qed

theorem kariyer_no_backfill_witness:
  "kn_search_jobs
     (ex_kn_fetch [ex_kn_card (Some ''Backend Developer'') (Some ''/is-ilani/1'') (Some ''Ankara''),
                   ex_kn_card (Some ''Data Engineer'') (Some ''/is-ilani/2'') None])
     ''developer'' ''istanbul'' 5 =
   Inr ([\<lparr>title = ''Backend Developer'', company = sirket,
          link = ''https://www.kariyer.net/is-ilani/1'', image_url = None,
          description = ''Ankara''\<rparr>,
         \<lparr>title = ''Data Engineer'', company = sirket,
          link = ''https://www.kariyer.net/is-ilani/2'', image_url = None,
          description = []\<rparr>],
        map (SearchPage ''developer'' ''istanbul'') kn_pages)"
  using kariyer_no_backfill [of
     "ex_kn_fetch [ex_kn_card (Some ''Backend Developer'') (Some ''/is-ilani/1'') (Some ''Ankara''),
                   ex_kn_card (Some ''Data Engineer'') (Some ''/is-ilani/2'') None]"
     "''developer''" "''istanbul''" 5]
  by (simp add: ex_eval)

section \<open>Properties of the extraction\<close>

text \<open>
  C5, as the code has it. A record that \<^verbatim>\<open>LinkedInBot._extract_job_data\<close> returns has
  a non-empty title, and a card without recoverable title is discarded.
  \<^verbatim>\<open>KariyerNetBot._extract_job_data\<close> discards no card for its title: it returns a record
  for every card whose queries do not raise. The title of that record is the search role
  when no title is recovered, and also when the recovered title is shorter than 3
  characters or contains an asterisk; it is the recovered title otherwise; and it is
  not empty whenever the search role is not empty.
\<close>

theorem extraction_titles:
  "(\<forall>j. li_extract_job_data c = Some j \<longrightarrow> title j \<noteq> []) \<and>
   (falsy (li_raw_title c) \<longrightarrow> li_extract_job_data c = None) \<and>
   (\<not> kn_raises k \<longrightarrow>
      (\<exists>j. kn_extract_job_data k role = Some j \<and>
           (falsy (kn_raw_title k) \<longrightarrow> title j = role) \<and>
           (\<forall>txt. kn_raw_title k = Some txt \<and> (length txt < 3 \<or> CHR ''*'' \<in> set txt) \<longrightarrow>
                  title j = role) \<and>
           (\<forall>txt. kn_raw_title k = Some txt \<and> 3 \<le> length txt \<and> CHR ''*'' \<notin> set txt \<longrightarrow>
                  title j = txt) \<and>
           (role \<noteq> [] \<longrightarrow> title j \<noteq> [])))"
proof (intro conjI allI impI)
  fix j
  assume "li_extract_job_data c = Some j"
  then show "title j \<noteq> []"
    by (auto simp: li_extract_job_data_def Let_def split: if_splits option.splits)
next
  assume "falsy (li_raw_title c)"
  then show "li_extract_job_data c = None"
    by (auto simp: li_extract_job_data_def falsy_def)
next
  assume "\<not> kn_raises k"
  then show "\<exists>j. kn_extract_job_data k role = Some j \<and>
           (falsy (kn_raw_title k) \<longrightarrow> title j = role) \<and>
           (\<forall>txt. kn_raw_title k = Some txt \<and> (length txt < 3 \<or> CHR ''*'' \<in> set txt) \<longrightarrow>
                  title j = role) \<and>
           (\<forall>txt. kn_raw_title k = Some txt \<and> 3 \<le> length txt \<and> CHR ''*'' \<notin> set txt \<longrightarrow>
                  title j = txt) \<and>
           (role \<noteq> [] \<longrightarrow> title j \<noteq> [])"
    by (auto simp: kn_extract_job_data_def Let_def falsy_def split: option.splits)
qed

theorem extraction_titles_witness:
  "li_extract_job_data (ex_li_card ''Backend Developer'' ''Acme'' None) =
     Some \<lparr>title = ''Backend Developer'', company = ''Acme'', link = ''#'',
           image_url = None, description = []\<rparr> \<and>
   falsy (li_raw_title (ex_li_card [] ''Acme'' None)) \<and>
   li_extract_job_data (ex_li_card [] ''Acme'' None) = None \<and>
   \<not> kn_raises (ex_kn_card None None None) \<and>
   falsy (kn_raw_title (ex_kn_card None None None)) \<and>
   ''developer'' \<noteq> [] \<and>
   kn_extract_job_data (ex_kn_card None None None) ''developer'' =
     Some \<lparr>title = ''developer'', company = sirket, link = ''#'',
           image_url = None, description = []\<rparr> \<and>
   kn_raw_title (ex_kn_card (Some ''QA'') None None) = Some ''QA'' \<and>
   length ''QA'' < 3 \<and>
   kn_extract_job_data (ex_kn_card (Some ''QA'') None None) ''developer'' =
     Some \<lparr>title = ''developer'', company = sirket, link = ''#'',
           image_url = None, description = []\<rparr> \<and>
   kn_raw_title (ex_kn_card (Some ''Senior ***'') None None) = Some ''Senior ***'' \<and>
   CHR ''*'' \<in> set ''Senior ***'' \<and>
   kn_extract_job_data (ex_kn_card (Some ''Senior ***'') None None) ''developer'' =
     Some \<lparr>title = ''developer'', company = sirket, link = ''#'',
           image_url = None, description = []\<rparr> \<and>
   kn_raw_title (ex_kn_card (Some ''Data Engineer'') None None) = Some ''Data Engineer'' \<and>
   3 \<le> length ''Data Engineer'' \<and> CHR ''*'' \<notin> set ''Data Engineer'' \<and>
   kn_extract_job_data (ex_kn_card (Some ''Data Engineer'') None None) ''developer'' =
     Some \<lparr>title = ''Data Engineer'', company = sirket, link = ''#'',
           image_url = None, description = []\<rparr>"
  using
    extraction_titles [where c = "ex_li_card [] ''Acme'' None" and role = "''developer''"
      and k = "ex_kn_card None None None"]
    extraction_titles [where c = "ex_li_card ''Backend Developer'' ''Acme'' None"
      and role = "''developer''" and k = "ex_kn_card (Some ''QA'') None None"]
    extraction_titles [where c = "ex_li_card ''Backend Developer'' ''Acme'' None"
      and role = "''developer''" and k = "ex_kn_card (Some ''Senior ***'') None None"]
    extraction_titles [where c = "ex_li_card ''Backend Developer'' ''Acme'' None"
      and role = "''developer''" and k = "ex_kn_card (Some ''Data Engineer'') None None"]
  by (simp add: ex_eval)

text \<open>
  C5, as the specification states it, fails for Kariyer.net: a card with no title
  element and no anchor is not discarded but returned with the search role as its
  title, and with an empty title when the search role is empty.
\<close>

theorem kariyer_emits_placeholder_title:
  "kn_raw_title (ex_kn_card None None None) = None \<and>
   kn_extract_job_data (ex_kn_card None None None) ''developer'' =
     Some \<lparr>title = ''developer'', company = sirket, link = ''#'',
           image_url = None, description = []\<rparr> \<and>
   kn_extract_job_data (ex_kn_card None None None) [] =
     Some \<lparr>title = [], company = sirket, link = ''#'',
           image_url = None, description = []\<rparr>"
  by (simp add: ex_eval)

text \<open>
  C7, as the code has it. The link of an extracted record is the origin of the source
  followed by the \<^verbatim>\<open>href\<close> when the \<^verbatim>\<open>href\<close> begins with a slash, the \<^verbatim>\<open>href\<close> itself when
  it begins with the four letters \<^verbatim>\<open>http\<close>, and the sentinel \<^verbatim>\<open>#\<close> otherwise, also when
  the card has no anchor with an \<^verbatim>\<open>href\<close>.
\<close>

theorem link_resolution:
  "(\<forall>j. li_extract_job_data c = Some j \<longrightarrow>
       link j = (case li_a_href c of
                   None \<Rightarrow> ''#''
                 | Some href \<Rightarrow>
                     if starts_with href ''/'' then ''https://www.linkedin.com'' @ href
                     else if starts_with href ''http'' then href
                     else ''#'')) \<and>
   (\<forall>j. kn_extract_job_data k role = Some j \<longrightarrow>
       link j = (case kn_a_tag k of
                   None \<Rightarrow> ''#''
                 | Some (txt, href) \<Rightarrow>
                     if starts_with href ''/'' then ''https://www.kariyer.net'' @ href
                     else if starts_with href ''http'' then href
                     else ''#''))"
  by (auto simp: li_extract_job_data_def kn_extract_job_data_def resolve_link_def Let_def
           split: if_splits option.splits)

theorem link_resolution_witness:
  "li_extract_job_data (ex_li_card ''Backend Developer'' ''Acme'' (Some ''/jobs/view/1'')) =
     Some \<lparr>title = ''Backend Developer'', company = ''Acme'',
           link = ''https://www.linkedin.com/jobs/view/1'', image_url = None,
           description = []\<rparr> \<and>
   kn_extract_job_data (ex_kn_card (Some ''Backend Developer'') (Some ''https://example.org/a'') None)
       ''developer'' =
     Some \<lparr>title = ''Backend Developer'', company = sirket,
           link = ''https://example.org/a'', image_url = None, description = []\<rparr>"
  using link_resolution [of "ex_li_card ''Backend Developer'' ''Acme'' (Some ''/jobs/view/1'')"
      "ex_kn_card (Some ''Backend Developer'') (Some ''https://example.org/a'') None" "''developer''"]
  by (simp add: ex_eval)

text \<open>
  C7, as the specification states it, fails: an \<^verbatim>\<open>href\<close> that begins with a scheme other
  than \<^verbatim>\<open>http\<close> or \<^verbatim>\<open>https\<close> is not passed through; both adapters answer the sentinel.
\<close>

theorem scheme_other_than_http_not_kept:
  "spec_begins_with_scheme ''mailto:jobs@example.org'' \<and>
   spec_resolve_link ''https://www.linkedin.com'' ''mailto:jobs@example.org'' =
     ''mailto:jobs@example.org'' \<and>
   li_extract_job_data (ex_li_card ''Backend Developer'' ''Acme'' (Some ''mailto:jobs@example.org'')) =
     Some \<lparr>title = ''Backend Developer'', company = ''Acme'', link = ''#'',
           image_url = None, description = []\<rparr> \<and>
   kn_extract_job_data
       (ex_kn_card (Some ''Backend Developer'') (Some ''mailto:jobs@example.org'') None)
       ''developer'' =
     Some \<lparr>title = ''Backend Developer'', company = sirket, link = ''#'',
           image_url = None, description = []\<rparr>"
  by (simp add: ex_eval spec_begins_with_scheme_def spec_resolve_link_def is_alpha_def is_alnum_def)

section \<open>The ranking score\<close>

text \<open>
  C9, as the code has it. The ranking score is the total the specification describes,
  taken on the lower-cased keywords, search role, title, company and description (a
  keyword or word counts when it is a contiguous part of the text), and rounded to one
  decimal.
\<close>

theorem ranking_score_formula:
  "ranking_score cv_keywords search_title j =
     py_round1 (spec_ranking_total (map py_lower cv_keywords) (py_lower search_title)
       \<lparr>title = py_lower (title j), company = py_lower (company j), link = link j,
        image_url = image_url j, description = py_lower (description j)\<rparr>)"
  by (simp add: ranking_score_def spec_ranking_total_def Let_def sum_list_triv conj_commute
      mult.commute)

theorem ranking_score_formula_witness:
  "ranking_score [''python'', ''docker'', ''aws''] ''python developer''
     \<lparr>title = ''python developer'', company = ''acme'', link = ''#'', image_url = None,
      description = ''docker and aws''\<rparr> = 100"
proof -
  have "py_round1 (spec_ranking_total (map py_lower [''python'', ''docker'', ''aws''])
          (py_lower ''python developer'')
          \<lparr>title = py_lower ''python developer'', company = py_lower ''acme'', link = ''#'',
           image_url = None, description = py_lower ''docker and aws''\<rparr>) = 100"
    by code_simp
  then show ?thesis
    by (simp only: ranking_score_formula job.select_convs)
qed

text \<open>
  C9, as the specification states it, fails: the score is not the clamped total itself.
  With one of three keywords found and two role words in the title the total is 190/3,
  and the score is 63.3.
\<close>

theorem ranking_score_is_rounded:
  "ranking_score [''python'', ''docker'', ''aws''] ''python developer''
     \<lparr>title = ''python developer'', company = ''acme'', link = ''#'', image_url = None,
      description = []\<rparr> = 633 / 10 \<and>
   spec_ranking_total [''python'', ''docker'', ''aws''] ''python developer''
     \<lparr>title = ''python developer'', company = ''acme'', link = ''#'', image_url = None,
      description = []\<rparr> = 190 / 3"
  by code_simp

end
